(* ===== verification/Prelude.thy ===== *)
theory Prelude
  imports Main "HOL-Library.List_Lexorder" "HOL-Library.Product_Lexorder" "HOL-Library.Char_ord"
begin

text \<open>
  What every component shares: the exceptions of the Python code as a datatype, results that may
  be an exception, the insertion-ordered dictionary the code builds with
  \<open>d.setdefault(k, []).append(x)\<close>, the order-preserving removal of duplicates it writes as
  \<open>if k not in out: out.append(k)\<close>, Python's \<open>sorted\<close>, \<open>max\<close> and \<open>next\<close>, and the
  lemmas about them that the component proofs use.
\<close>

named_theorems res_simps \<open>equations of the exception monad\<close>
named_theorems uniq_simps \<open>facts about order-preserving removal of duplicates\<close>

subsection \<open>Exceptions and results\<close>

text \<open>
  \<open>OutOfSchema\<close> is not a Python exception: it marks an input whose JSON types lie outside
  the schema a model covers (see the header of the root theory), so that no theorem can be
  mistaken to speak about such an input.
\<close>

datatype pyexn =
    TypeError
  | ValueError string
  | AttributeError
  | KeyError
  | IndexError
  | OverflowError
  | HTTPError int
  | URLError
  | OtherError
  | SystemExitMsg string
  | SystemExitCode int
  | OutOfSchema

type_synonym 'a res = "pyexn + 'a"

definition rbind :: "'a res \<Rightarrow> ('a \<Rightarrow> 'b res) \<Rightarrow> 'b res" where
  "rbind r f = (case r of Inl e \<Rightarrow> Inl e | Inr x \<Rightarrow> f x)"

lemma rbind_simps [simp, res_simps]:
  "rbind (Inl e) f = Inl e"
  "rbind (Inr x) f = f x"
  by (simp_all add: rbind_def)

lemma rbind_eq_Inr [res_simps]: "rbind r f = Inr y \<longleftrightarrow> (\<exists>x. r = Inr x \<and> f x = Inr y)"
  by (cases r) simp_all

lemma rbind_eq_Inl [res_simps]:
  "rbind r f = Inl e \<longleftrightarrow> r = Inl e \<or> (\<exists>x. r = Inr x \<and> f x = Inl e)"
  by (cases r) simp_all

text \<open>A loop that appends one result per element and stops at the first exception.\<close>

fun rmap :: "('a \<Rightarrow> 'b res) \<Rightarrow> 'a list \<Rightarrow> 'b list res" where
  "rmap f [] = Inr []"
| "rmap f (x # xs) = rbind (f x) (\<lambda>y. rbind (rmap f xs) (\<lambda>ys. Inr (y # ys)))"

lemma rmap_Inr_iff: "rmap f xs = Inr ys \<longleftrightarrow> list_all2 (\<lambda>x y. f x = Inr y) xs ys"
  by (induction xs arbitrary: ys) (auto simp: res_simps list_all2_Cons1)

lemma rmap_length: "rmap f xs = Inr ys \<Longrightarrow> length ys = length xs"
  by (simp add: rmap_Inr_iff list_all2_lengthD)

lemma rmap_total: "(\<And>x. x \<in> set xs \<Longrightarrow> f x = Inr (g x)) \<Longrightarrow> rmap f xs = Inr (map g xs)"
  by (induction xs) simp_all

lemma rmap_member: "rmap f xs = Inr ys \<Longrightarrow> y \<in> set ys \<Longrightarrow> \<exists>x \<in> set xs. f x = Inr y"
  by (induction xs arbitrary: ys) (auto simp: res_simps)

text \<open>The loop \<open>for x in xs: if ...: continue; out.append(...)\<close>, as a list of options.\<close>

fun somes :: "'a option list \<Rightarrow> 'a list" where
  "somes [] = []"
| "somes (None # xs) = somes xs"
| "somes (Some x # xs) = x # somes xs"

lemma set_somes [simp]: "p \<in> set (somes xs) \<longleftrightarrow> Some p \<in> set xs"
  by (induction xs rule: somes.induct) auto

lemma somes_append [simp]: "somes (xs @ ys) = somes xs @ somes ys"
  by (induction xs rule: somes.induct) auto

lemma somes_map_Some [simp]: "somes (map (\<lambda>x. Some (f x)) xs) = map f xs"
  by (induction xs) auto

lemma somes_map_filter: "somes (map (\<lambda>x. if P x then Some (f x) else None) xs) = map f (filter P xs)"
  by (induction xs) auto

subsection \<open>Order-preserving removal of duplicates\<close>

text \<open>\<open>if x not in out: out.append(x)\<close>, and the loop of it.\<close>

definition add_new :: "'a \<Rightarrow> 'a list \<Rightarrow> 'a list" where
  "add_new x out = (if x \<in> set out then out else out @ [x])"

fun add_all_new :: "'a list \<Rightarrow> 'a list \<Rightarrow> 'a list" where
  "add_all_new [] out = out"
| "add_all_new (x # xs) out = add_all_new xs (add_new x out)"

lemma set_add_new [simp, uniq_simps]: "set (add_new x out) = insert x (set out)"
  by (auto simp: add_new_def)

lemma distinct_add_new [simp, uniq_simps]: "distinct (add_new x out) = distinct out"
  by (auto simp: add_new_def)

lemma set_add_all_new [simp, uniq_simps]: "set (add_all_new xs out) = set xs \<union> set out"
  by (induction xs arbitrary: out) auto

lemma distinct_add_all_new [simp, uniq_simps]: "distinct (add_all_new xs out) = distinct out"
  by (induction xs arbitrary: out) auto

lemma add_all_new_append [uniq_simps]:
  "add_all_new (xs @ ys) out = add_all_new ys (add_all_new xs out)"
  by (induction xs arbitrary: out) auto

lemma add_all_new_absorb: "set xs \<subseteq> set out \<Longrightarrow> add_all_new xs out = out"
  by (induction xs arbitrary: out) (auto simp: add_new_def)

lemma add_all_new_distinct:
  "distinct xs \<Longrightarrow> set xs \<inter> set out = {} \<Longrightarrow> add_all_new xs out = out @ xs"
  by (induction xs arbitrary: out) (auto simp: add_new_def)

lemma add_all_new_Nil_distinct [uniq_simps]: "distinct xs \<Longrightarrow> add_all_new xs [] = xs"
  by (simp add: add_all_new_distinct)

lemma add_all_new_prefix: "\<exists>zs. add_all_new xs out = out @ zs"
proof (induction xs arbitrary: out)
  case Nil
  then show ?case by simp
next
  case (Cons x xs)
  from Cons.IH [of "add_new x out"] show ?case by (auto simp: add_new_def)
qed

subsection \<open>Insertion-ordered dictionaries of lists\<close>

text \<open>
  \<open>groups.setdefault(k, []).append(x)\<close> on a Python dict, whose items keep the order in
  which their keys were first inserted.
\<close>

fun setdefault_append :: "'k \<Rightarrow> 'a \<Rightarrow> ('k \<times> 'a list) list \<Rightarrow> ('k \<times> 'a list) list" where
  "setdefault_append k x [] = [(k, [x])]"
| "setdefault_append k x ((k', xs) # g) =
     (if k = k' then (k', xs @ [x]) # g else (k', xs) # setdefault_append k x g)"

fun group_into :: "('a \<Rightarrow> 'k) \<Rightarrow> 'a list \<Rightarrow> ('k \<times> 'a list) list \<Rightarrow> ('k \<times> 'a list) list" where
  "group_into f [] g = g"
| "group_into f (x # xs) g = group_into f xs (setdefault_append (f x) x g)"

definition group_by :: "('a \<Rightarrow> 'k) \<Rightarrow> 'a list \<Rightarrow> ('k \<times> 'a list) list" where
  "group_by f xs = group_into f xs []"

definition dict_list :: "('k \<times> 'a list) list \<Rightarrow> 'k \<Rightarrow> 'a list" where
  "dict_list g k = (case map_of g k of None \<Rightarrow> [] | Some xs \<Rightarrow> xs)"

lemma keys_setdefault_append:
  "map fst (setdefault_append k x g) = add_new k (map fst g)"
  by (induction k x g rule: setdefault_append.induct) (auto simp: add_new_def)

lemma keys_group_into: "map fst (group_into f xs g) = add_all_new (map f xs) (map fst g)"
  by (induction f xs g rule: group_into.induct) (simp_all add: keys_setdefault_append)

lemma keys_group_by: "map fst (group_by f xs) = add_all_new (map f xs) []"
  by (simp add: group_by_def keys_group_into)

lemma distinct_keys_group_by [simp]: "distinct (map fst (group_by f xs))"
  by (simp add: keys_group_by)

lemma fst_set_group_by: "fst ` set (group_by f xs) = f ` set xs"
  by (metis keys_group_by list.set_map set_add_all_new sup_bot_right empty_set)

lemma dict_list_setdefault_append:
  "dict_list (setdefault_append k x g) k' = dict_list g k' @ (if k' = k then [x] else [])"
  by (induction k x g rule: setdefault_append.induct) (auto simp: dict_list_def)

lemma dict_list_group_into:
  "dict_list (group_into f xs g) k = dict_list g k @ filter (\<lambda>x. f x = k) xs"
  by (induction f xs g rule: group_into.induct) (auto simp: dict_list_setdefault_append)

lemma dict_list_group_by: "dict_list (group_by f xs) k = filter (\<lambda>x. f x = k) xs"
  by (simp add: group_by_def dict_list_group_into) (simp add: dict_list_def)

text \<open>Each entry of a grouping is its key with the elements of that key, in list order.\<close>

lemma group_by_entry:
  assumes "(k, g) \<in> set (group_by f xs)"
  shows "g = filter (\<lambda>x. f x = k) xs" and "k \<in> f ` set xs"
proof -
  have "map_of (group_by f xs) k = Some g"
    using assms by (simp add: map_of_is_SomeI)
  then show "g = filter (\<lambda>x. f x = k) xs"
    using dict_list_group_by [of f xs k] by (simp add: dict_list_def)
  show "k \<in> f ` set xs"
    using assms fst_set_group_by [of f xs] by force
qed

lemma group_by_entry_iff:
  "(k, g) \<in> set (group_by f xs) \<longleftrightarrow> k \<in> f ` set xs \<and> g = filter (\<lambda>x. f x = k) xs"
proof
  assume R: "k \<in> f ` set xs \<and> g = filter (\<lambda>x. f x = k) xs"
  then have "k \<in> fst ` set (group_by f xs)"
    by (simp only: fst_set_group_by)
  then obtain g' where g': "(k, g') \<in> set (group_by f xs)" by auto
  with R group_by_entry(1) [OF g'] show "(k, g) \<in> set (group_by f xs)" by simp
next
  assume "(k, g) \<in> set (group_by f xs)"
  then show "k \<in> f ` set xs \<and> g = filter (\<lambda>x. f x = k) xs"
    using group_by_entry [of k g f xs] by simp
qed

lemma group_by_nonempty: "(k, g) \<in> set (group_by f xs) \<Longrightarrow> g \<noteq> []"
  by (auto simp: group_by_entry_iff filter_empty_conv)

subsection \<open>Python's sorted, max, min and next\<close>

text \<open>
  \<open>sorted(xs, key=f)\<close> is the library's stable \<open>sort_key\<close>. With \<open>reverse=True\<close> Python
  keeps equal elements in their original order, which reversing before and after a stable sort
  does.
\<close>

definition sorted_rev_key :: "('a \<Rightarrow> 'k::linorder) \<Rightarrow> 'a list \<Rightarrow> 'a list" where
  "sorted_rev_key f xs = rev (sort_key f (rev xs))"

lemma set_sorted_rev_key [simp]: "set (sorted_rev_key f xs) = set xs"
  by (simp add: sorted_rev_key_def)

lemma sorted_rev_key_Nil [simp]: "sorted_rev_key f xs = [] \<longleftrightarrow> xs = []"
  by (metis set_empty set_sorted_rev_key)

lemma hd_sorted_rev_key_max:
  assumes "x \<in> set xs"
  shows "f x \<le> f (hd (sorted_rev_key f xs))"
proof -
  let ?s = "sort_key f (rev xs)"
  have "x \<in> set ?s" and ne: "?s \<noteq> []"
    using assms by (auto simp flip: set_empty)
  then obtain i where i: "i < length ?s" "?s ! i = x"
    unfolding in_set_conv_nth by blast
  have "map f ?s ! i \<le> map f ?s ! (length ?s - 1)"
    by (rule sorted_nth_mono) (use i in auto)
  then show ?thesis
    using i ne by (simp add: sorted_rev_key_def hd_rev last_conv_nth)
qed

text \<open>\<open>max(xs, key=f)\<close>: the first element with the greatest key.\<close>

fun max_key_from :: "('a \<Rightarrow> 'k::linorder) \<Rightarrow> 'a \<Rightarrow> 'a list \<Rightarrow> 'a" where
  "max_key_from f m [] = m"
| "max_key_from f m (x # xs) = max_key_from f (if f m < f x then x else m) xs"

definition max_key :: "('a \<Rightarrow> 'k::linorder) \<Rightarrow> 'a list \<Rightarrow> 'a" where
  "max_key f xs = max_key_from f (hd xs) (tl xs)"

lemma max_key_from_in: "max_key_from f m xs \<in> set (m # xs)"
  by (induction f m xs rule: max_key_from.induct) auto

lemma max_key_from_ge: "x \<in> set (m # xs) \<Longrightarrow> f x \<le> f (max_key_from f m xs)"
proof (induction f m xs arbitrary: x rule: max_key_from.induct)
  case (1 f m)
  then show ?case by simp
next
  case (2 f m y ys)
  let ?m = "if f m < f y then y else m"
  have "f m \<le> f ?m" and "f y \<le> f ?m" by (auto simp: not_less)
  moreover have "f ?m \<le> f (max_key_from f ?m ys)" by (rule "2.IH") simp
  moreover have "x \<in> set ys \<Longrightarrow> f x \<le> f (max_key_from f ?m ys)" by (rule "2.IH") simp
  ultimately show ?case using "2.prems" by (auto intro: order_trans simp del: if_split)
qed

lemma max_key_in: "xs \<noteq> [] \<Longrightarrow> max_key f xs \<in> set xs"
  using max_key_from_in [of f "hd xs" "tl xs"] by (simp add: max_key_def)

lemma max_key_ge: "x \<in> set xs \<Longrightarrow> f x \<le> f (max_key f xs)"
  using max_key_from_ge [of x "hd xs" "tl xs" f] by (cases xs) (auto simp: max_key_def)

text \<open>\<open>next((x for x in xs if p(x)), d)\<close>.\<close>

definition next_or :: "('a \<Rightarrow> bool) \<Rightarrow> 'a list \<Rightarrow> 'a \<Rightarrow> 'a" where
  "next_or p xs d = (case find p xs of None \<Rightarrow> d | Some x \<Rightarrow> x)"

lemma next_or_cases: "next_or p xs d = d \<or> (next_or p xs d \<in> set xs \<and> p (next_or p xs d))"
  by (auto simp: next_or_def find_Some_iff split: option.splits)

end
