(* ===== verification/PyStr.thy ===== *)
theory PyStr
  imports Prelude
begin

text \<open>
  The string methods of Python that the code uses, on strings of code points below 256: a
  \<open>char\<close> is one code point, so \<open>length\<close>, indexing and slices count what Python counts, and the
  white space, the line boundaries and the case mapping are Python's on that range.
\<close>

subsection \<open>Character classes\<close>

abbreviation code :: "char \<Rightarrow> nat" where "code c \<equiv> of_char c"

definition NL :: char where "NL = CHR 0x0A"

definition is_space :: "char \<Rightarrow> bool" where
  "is_space c = (let n = code c in (9 \<le> n \<and> n \<le> 13) \<or> (28 \<le> n \<and> n \<le> 32) \<or> n = 133 \<or> n = 160)"

definition is_linebreak :: "char \<Rightarrow> bool" where
  "is_linebreak c = (let n = code c in (10 \<le> n \<and> n \<le> 13) \<or> (28 \<le> n \<and> n \<le> 30) \<or> n = 133)"

definition is_digit :: "char \<Rightarrow> bool" where
  "is_digit c = (let n = code c in 48 \<le> n \<and> n \<le> 57)"

definition digit_val :: "char \<Rightarrow> nat" where
  "digit_val c = code c - 48"

definition is_hex :: "char \<Rightarrow> bool" where
  "is_hex c = (let n = code c in is_digit c \<or> (65 \<le> n \<and> n \<le> 70) \<or> (97 \<le> n \<and> n \<le> 102))"

definition hex_val :: "char \<Rightarrow> nat" where
  "hex_val c = (let n = code c in if n < 58 then n - 48 else if n < 71 then n - 55 else n - 87)"

definition to_lower :: "char \<Rightarrow> char" where
  "to_lower c = (let n = code c in
     if (65 \<le> n \<and> n \<le> 90) \<or> (192 \<le> n \<and> n \<le> 222 \<and> n \<noteq> 215) then char_of (n + 32) else c)"

lemma linebreak_is_space: "is_linebreak c \<Longrightarrow> is_space c"
  by (auto simp: is_linebreak_def is_space_def Let_def)

lemma NL_linebreak [simp]: "is_linebreak NL" "is_space NL"
  by (simp_all add: is_linebreak_def is_space_def NL_def)

subsection \<open>strip, lower, startswith, in, count\<close>

definition lstrip :: "string \<Rightarrow> string" where
  "lstrip s = dropWhile is_space s"

definition rstrip :: "string \<Rightarrow> string" where
  "rstrip s = rev (dropWhile is_space (rev s))"

definition strip :: "string \<Rightarrow> string" where
  "strip s = rstrip (lstrip s)"

text \<open>\<open>s.lstrip(c)\<close>, \<open>s.rstrip(c)\<close> and \<open>s.strip(c)\<close> for one character.\<close>

definition lstrip_char :: "char \<Rightarrow> string \<Rightarrow> string" where
  "lstrip_char c s = dropWhile (\<lambda>x. x = c) s"

definition rstrip_char :: "char \<Rightarrow> string \<Rightarrow> string" where
  "rstrip_char c s = rev (dropWhile (\<lambda>x. x = c) (rev s))"

definition strip_char :: "char \<Rightarrow> string \<Rightarrow> string" where
  "strip_char c s = rstrip_char c (lstrip_char c s)"

definition lower :: "string \<Rightarrow> string" where
  "lower s = map to_lower s"

fun starts_with :: "string \<Rightarrow> string \<Rightarrow> bool" where
  "starts_with [] s = True"
| "starts_with (x # xs) [] = False"
| "starts_with (x # xs) (y # ys) = (x = y \<and> starts_with xs ys)"

definition ends_with :: "string \<Rightarrow> string \<Rightarrow> bool" where
  "ends_with p s = starts_with (rev p) (rev s)"

text \<open>\<open>p in s\<close> for strings.\<close>

fun contains :: "string \<Rightarrow> string \<Rightarrow> bool" where
  "contains p [] = (p = [])"
| "contains p (c # s) = (starts_with p (c # s) \<or> contains p s)"

lemma starts_with_iff: "starts_with p s \<longleftrightarrow> (\<exists>t. s = p @ t)"
  by (induction p s rule: starts_with.induct) auto

lemma starts_with_append [simp]: "starts_with p (p @ t)"
  by (auto simp: starts_with_iff)

lemma starts_with_Nil_right [simp]: "starts_with p [] \<longleftrightarrow> p = []"
  by (cases p) auto

lemma starts_with_refl [simp]: "starts_with p p"
  using starts_with_append [of p "[]"] by simp

lemma ends_with_iff: "ends_with p s \<longleftrightarrow> (\<exists>t. s = t @ p)"
  unfolding ends_with_def starts_with_iff by (metis rev_append rev_rev_ident)

lemma contains_iff: "contains p s \<longleftrightarrow> (\<exists>a b. s = a @ p @ b)"
proof (induction s)
  case Nil
  then show ?case by auto
next
  case (Cons c s)
  have "(\<exists>a b. c # s = a @ p @ b) \<longleftrightarrow> (\<exists>b. c # s = p @ b) \<or> (\<exists>a b. s = a @ p @ b)"
    by (metis append_Cons append_Nil append_eq_Cons_conv)
  then show ?case by (simp add: Cons.IH starts_with_iff)
qed

lemma dropWhile_hd: "dropWhile P s = [] \<or> \<not> P (hd (dropWhile P s))"
  by (induction s) auto

lemma dropWhile_idem: "dropWhile P (dropWhile P s) = dropWhile P s"
  by (induction s) auto

lemma dropWhile_eq_self: "s = [] \<or> \<not> P (hd s) \<Longrightarrow> dropWhile P s = s"
  by (cases s) auto

lemma rstrip_eq_self: "s = [] \<or> \<not> is_space (last s) \<Longrightarrow> rstrip s = s"
  by (auto simp: rstrip_def dropWhile_eq_self hd_rev)

lemma lstrip_eq_self: "s = [] \<or> \<not> is_space (hd s) \<Longrightarrow> lstrip s = s"
  by (simp add: lstrip_def dropWhile_eq_self)

lemma strip_eq_self: "s = [] \<or> (\<not> is_space (hd s) \<and> \<not> is_space (last s)) \<Longrightarrow> strip s = s"
  by (auto simp: strip_def lstrip_eq_self rstrip_eq_self)

lemma rstrip_last: "rstrip s = [] \<or> \<not> is_space (last (rstrip s))"
  using dropWhile_hd [of is_space "rev s"] by (auto simp: rstrip_def last_rev)

lemma rstrip_prefix: "\<exists>t. s = rstrip s @ t"
proof -
  have "rev s = takeWhile is_space (rev s) @ dropWhile is_space (rev s)" by simp
  then have "s = rstrip s @ rev (takeWhile is_space (rev s))"
    unfolding rstrip_def by (metis rev_append rev_rev_ident)
  then show ?thesis by blast
qed

lemma lstrip_hd: "lstrip s = [] \<or> \<not> is_space (hd (lstrip s))"
  unfolding lstrip_def by (rule dropWhile_hd)

lemma strip_ends: "strip s = [] \<or> (\<not> is_space (hd (strip s)) \<and> \<not> is_space (last (strip s)))"
proof (cases "strip s = []")
  case False
  obtain t where t: "lstrip s = strip s @ t"
    using rstrip_prefix [of "lstrip s"] by (auto simp: strip_def)
  have "hd (lstrip s) = hd (strip s)" using False t by (metis hd_append)
  moreover have "lstrip s \<noteq> []" using False t by auto
  ultimately show ?thesis
    using lstrip_hd [of s] rstrip_last [of "lstrip s"] False by (simp add: strip_def)
qed simp

lemma strip_idem [simp]: "strip (strip s) = strip s"
  by (rule strip_eq_self [OF strip_ends])

text \<open>No surrounding white space, and not empty.\<close>

definition clean :: "string \<Rightarrow> bool" where
  "clean s = (s \<noteq> [] \<and> strip s = s)"

lemma set_lstrip: "set (lstrip s) \<subseteq> set s"
  unfolding lstrip_def by (auto dest: set_dropWhileD)

lemma set_rstrip: "set (rstrip s) \<subseteq> set s"
  unfolding rstrip_def by (auto dest: set_dropWhileD)

lemma set_strip: "set (strip s) \<subseteq> set s"
  unfolding strip_def using set_rstrip set_lstrip by blast

lemma lstrip_append_strip: "lstrip (w @ s) = lstrip s" if "\<forall>c \<in> set w. is_space c"
  using that by (simp add: lstrip_def dropWhile_append)

lemma strip_Nil_iff: "strip s = [] \<longleftrightarrow> (\<forall>c \<in> set s. is_space c)"
proof
  assume "strip s = []"
  then have "lstrip s = [] \<or> dropWhile is_space (rev (lstrip s)) = []"
    by (simp add: strip_def rstrip_def)
  then have "\<forall>c \<in> set (lstrip s). is_space c" by (auto simp: dropWhile_eq_Nil_conv)
  then have "lstrip s = []" using lstrip_hd [of s] by (metis list.set_sel(1))
  then show "\<forall>c \<in> set s. is_space c" by (simp add: lstrip_def dropWhile_eq_Nil_conv)
next
  assume "\<forall>c \<in> set s. is_space c"
  then have "lstrip s = []" by (simp add: lstrip_def dropWhile_eq_Nil_conv)
  then show "strip s = []" by (simp add: strip_def rstrip_def)
qed

subsection \<open>split, join, replace, find\<close>

text \<open>\<open>s.split(c)\<close> for one character.\<close>

fun split_char :: "char \<Rightarrow> string \<Rightarrow> string list" where
  "split_char c [] = [[]]"
| "split_char c (x # xs) =
     (if x = c then [] # split_char c xs
      else (case split_char c xs of [] \<Rightarrow> [[x]] | h # t \<Rightarrow> (x # h) # t))"

text \<open>\<open>s.split(sep, 1)\<close>: the part before the first \<open>sep\<close>, and the part after it if there is one.\<close>

fun split1 :: "string \<Rightarrow> string \<Rightarrow> string \<times> string option" where
  "split1 sep [] = ([], None)"
| "split1 sep (c # s) =
     (if starts_with sep (c # s) then ([], Some (drop (length sep) (c # s)))
      else (case split1 sep s of (a, b) \<Rightarrow> (c # a, b)))"

fun join :: "string \<Rightarrow> string list \<Rightarrow> string" where
  "join sep [] = []"
| "join sep [s] = s"
| "join sep (s # t # ss) = s @ sep @ join sep (t # ss)"

text \<open>\<open>s.replace(old, new)\<close> for a non-empty \<open>old\<close>, which is how the code calls it.\<close>

function replace_all :: "string \<Rightarrow> string \<Rightarrow> string \<Rightarrow> string" where
  "replace_all old new [] = []"
| "replace_all old new (c # s) =
     (if old \<noteq> [] \<and> starts_with old (c # s)
      then new @ replace_all old new (drop (length old) (c # s))
      else c # replace_all old new s)"
  by pat_completeness auto
termination
  by (relation "measure (\<lambda>(old, new, s). length s)") auto

text \<open>\<open>s.find(p)\<close>, with \<open>None\<close> for -1.\<close>

fun find_str :: "string \<Rightarrow> string \<Rightarrow> nat option" where
  "find_str p [] = (if p = [] then Some 0 else None)"
| "find_str p (c # s) =
     (if starts_with p (c # s) then Some 0 else map_option Suc (find_str p s))"

lemma split_char_not_Nil [simp]: "split_char c s \<noteq> []"
  by (induction s) (auto split: list.split)

lemma split_char_no_sep: "c \<notin> set s \<Longrightarrow> split_char c s = [s]"
  by (induction s) auto

lemma split_char_append: "c \<notin> set a \<Longrightarrow> split_char c (a @ c # s) = a # split_char c s"
  by (induction a) auto

lemma split_char_parts: "p \<in> set (split_char c s) \<Longrightarrow> c \<notin> set p \<and> set p \<subseteq> set s"
proof (induction s arbitrary: p)
  case Nil
  then show ?case by simp
next
  case (Cons x s)
  obtain h t where ht: "split_char c s = h # t"
    by (cases "split_char c s") auto
  show ?case
  proof (cases "x = c")
    case True
    with Cons show ?thesis by fastforce
  next
    case False
    with Cons.prems ht have "p = x # h \<or> p \<in> set t" by simp
    moreover have "c \<notin> set h \<and> set h \<subseteq> set s" using Cons.IH [of h] ht by simp
    moreover have "p \<in> set t \<Longrightarrow> c \<notin> set p \<and> set p \<subseteq> set s" using Cons.IH [of p] ht by simp
    ultimately show ?thesis using False by auto
  qed
qed

lemma join_split_char: "join [c] (split_char c s) = s"
proof (induction s)
  case Nil
  then show ?case by simp
next
  case (Cons x s)
  obtain h t where "split_char c s = h # t"
    by (cases "split_char c s") auto
  with Cons show ?case by (cases t) auto
qed

lemma split_char_join:
  "ss \<noteq> [] \<Longrightarrow> (\<And>s. s \<in> set ss \<Longrightarrow> c \<notin> set s) \<Longrightarrow> split_char c (join [c] ss) = ss"
  by (induction "[c]" ss rule: join.induct)
    (auto simp: split_char_no_sep split_char_append)

lemma set_join_subset: "set (join sep ss) \<subseteq> set sep \<union> \<Union> (set ` set ss)"
  by (induction sep ss rule: join.induct) auto

lemma replace_all_absent: "\<not> contains old s \<Longrightarrow> replace_all old new s = s"
  by (induction s) auto

subsection \<open>Lines\<close>

text \<open>\<open>s.splitlines()\<close> and \<open>s.splitlines(keepends=True)\<close>.\<close>

definition push_first :: "char \<Rightarrow> string list \<Rightarrow> string list" where
  "push_first c ls = (case ls of [] \<Rightarrow> [[c]] | l # ls' \<Rightarrow> (c # l) # ls')"

text \<open>A carriage return followed by a line feed is one line boundary.\<close>

definition crlf_tail :: "char \<Rightarrow> string \<Rightarrow> string" where
  "crlf_tail c s = (if c = CHR 0x0D \<and> s \<noteq> [] \<and> hd s = NL then [NL] else [])"

function splitlines :: "string \<Rightarrow> string list" where
  "splitlines [] = []"
| "splitlines (c # s) =
     (if is_linebreak c then [] # splitlines (drop (length (crlf_tail c s)) s)
      else push_first c (splitlines s))"
  by pat_completeness auto
termination
  by (relation "measure length") auto

function splitlines_keep :: "string \<Rightarrow> string list" where
  "splitlines_keep [] = []"
| "splitlines_keep (c # s) =
     (if is_linebreak c
      then (c # crlf_tail c s) # splitlines_keep (drop (length (crlf_tail c s)) s)
      else push_first c (splitlines_keep s))"
  by pat_completeness auto
termination
  by (relation "measure length") auto

definition unbroken :: "string \<Rightarrow> bool" where
  "unbroken s = (\<forall>c \<in> set s. \<not> is_linebreak c)"

lemma unbroken_Nil [simp]: "unbroken []"
  by (simp add: unbroken_def)

lemma unbroken_Cons [simp]: "unbroken (c # s) \<longleftrightarrow> \<not> is_linebreak c \<and> unbroken s"
  by (simp add: unbroken_def)

lemma unbroken_append [simp]: "unbroken (a @ b) \<longleftrightarrow> unbroken a \<and> unbroken b"
  by (auto simp: unbroken_def)

lemma push_first_simps [simp]:
  "push_first c [] = [[c]]" "push_first c (l # ls) = (c # l) # ls"
  by (simp_all add: push_first_def)

lemma crlf_tail_NL [simp]: "crlf_tail NL s = []"
  by (simp add: crlf_tail_def NL_def)

lemma splitlines_unbroken: "l \<in> set (splitlines s) \<Longrightarrow> unbroken l"
proof (induction s arbitrary: l rule: splitlines.induct)
  case (2 c s)
  then show ?case
    by (cases "is_linebreak c"; cases "splitlines s") auto
qed simp

lemma splitlines_line: "unbroken l \<Longrightarrow> splitlines (l @ NL # s) = l # splitlines s"
  by (induction l) simp_all

lemma splitlines_last: "unbroken l \<Longrightarrow> l \<noteq> [] \<Longrightarrow> splitlines l = [l]"
proof (induction l)
  case (Cons c l)
  then show ?case by (cases l) simp_all
qed simp

lemma join_Cons: "ls \<noteq> [] \<Longrightarrow> join sep (l # ls) = l @ sep @ join sep ls"
  by (cases ls) simp_all

text \<open>Writing lines back with \<open>"\n".join(lines) + "\n"\<close> and reading them again is the identity.\<close>

lemma splitlines_join_NL:
  "ls \<noteq> [] \<Longrightarrow> \<forall>l \<in> set ls. unbroken l \<Longrightarrow> splitlines (join [NL] ls @ [NL]) = ls"
proof (induction ls)
  case (Cons l ls)
  then show ?case
    by (cases "ls = []") (simp_all add: splitlines_line join_Cons)
qed simp

lemma splitlines_join:
  "ls \<noteq> [] \<Longrightarrow> \<forall>l \<in> set ls. unbroken l \<Longrightarrow> last ls \<noteq> [] \<Longrightarrow> splitlines (join [NL] ls) = ls"
proof (induction ls)
  case (Cons l ls)
  then show ?case
    by (cases "ls = []") (simp_all add: splitlines_line splitlines_last join_Cons)
qed simp

lemma crlf_tail_append: "crlf_tail c s @ drop (length (crlf_tail c s)) s = s"
  by (cases s) (simp_all add: crlf_tail_def)

lemma concat_push_first: "concat (push_first c ls) = c # concat ls"
  by (cases ls) simp_all

lemma concat_splitlines_keep: "concat (splitlines_keep s) = s"
  by (induction s rule: splitlines_keep.induct) (simp_all add: crlf_tail_append concat_push_first)

subsection \<open>Decimal numbers\<close>

fun nat_digits :: "nat \<Rightarrow> string" where
  "nat_digits n = (if n < 10 then [char_of (48 + n)] else nat_digits (n div 10) @ [char_of (48 + n mod 10)])"

declare nat_digits.simps [simp del]

text \<open>\<open>str(i)\<close> and \<open>"%d" % i\<close>.\<close>

definition int_str :: "int \<Rightarrow> string" where
  "int_str i = (if i < 0 then CHR ''-'' # nat_digits (nat (- i)) else nat_digits (nat i))"

definition digits_val :: "string \<Rightarrow> nat" where
  "digits_val s = foldl (\<lambda>a c. 10 * a + digit_val c) 0 s"

text \<open>\<open>int(s)\<close>: white space around, an optional sign, digits with single underscores between.\<close>

fun drop_underscores :: "string \<Rightarrow> string option" where
  "drop_underscores [] = None"
| "drop_underscores [c] = (if is_digit c then Some [c] else None)"
| "drop_underscores (c # d # s) =
     (if \<not> is_digit c then None
      else if d = CHR ''_'' then map_option (Cons c) (drop_underscores s)
      else map_option (Cons c) (drop_underscores (d # s)))"

definition parse_int :: "string \<Rightarrow> int option" where
  "parse_int raw =
     (let s = strip raw in
      case s of
        [] \<Rightarrow> None
      | c # t \<Rightarrow>
          if c = CHR ''-'' then map_option (\<lambda>d. - int (digits_val d)) (drop_underscores t)
          else if c = CHR ''+'' then map_option (\<lambda>d. int (digits_val d)) (drop_underscores t)
          else map_option (\<lambda>d. int (digits_val d)) (drop_underscores s))"

lemma digit_char: "n < 10 \<Longrightarrow> is_digit (char_of (48 + n)) \<and> digit_val (char_of (48 + n)) = n"
  for n :: nat
  by (simp add: is_digit_def digit_val_def)

lemma nat_digits_digits: "c \<in> set (nat_digits n) \<Longrightarrow> is_digit c"
proof (induction n rule: nat_digits.induct)
  case (1 n)
  then show ?case
    using digit_char [of n] digit_char [of "n mod 10"]
    by (cases "n < 10") (auto simp: nat_digits.simps [of n])
qed

lemma nat_digits_not_Nil [simp]: "nat_digits n \<noteq> []"
  by (subst nat_digits.simps) simp

lemma digits_val_snoc: "digits_val (s @ [c]) = 10 * digits_val s + digit_val c"
  by (simp add: digits_val_def)

lemma digits_val_nat_digits: "digits_val (nat_digits n) = n"
proof (induction n rule: nat_digits.induct)
  case (1 n)
  show ?case
  proof (cases "n < 10")
    case True
    then show ?thesis using digit_char [of n] by (simp add: nat_digits.simps [of n] digits_val_def)
  next
    case False
    with 1 show ?thesis
      using digit_char [of "n mod 10"] by (simp add: nat_digits.simps [of n] digits_val_snoc)
  qed
qed

lemma drop_underscores_digits: "s \<noteq> [] \<Longrightarrow> \<forall>c \<in> set s. is_digit c \<Longrightarrow> drop_underscores s = Some s"
proof (induction s rule: drop_underscores.induct)
  case (3 c d s)
  then have "d \<noteq> CHR ''_''" by (auto simp: is_digit_def)
  with 3 show ?case by simp
qed auto

lemma digit_not_space: "is_digit c \<Longrightarrow> \<not> is_space c"
  by (auto simp: is_digit_def is_space_def Let_def)

lemma parse_int_int_str: "parse_int (int_str i) = Some i"
proof -
  have d: "drop_underscores (nat_digits n) = Some (nat_digits n)" for n
    by (simp add: drop_underscores_digits nat_digits_digits)
  have h: "is_digit (hd (nat_digits n)) \<and> is_digit (last (nat_digits n))" for n
    using nat_digits_digits [of "hd (nat_digits n)" n] nat_digits_digits [of "last (nat_digits n)" n]
    by simp
  have "\<not> is_space (CHR ''-'')" by (simp add: is_space_def)
  then have st: "strip (int_str i) = int_str i"
    using h [of "nat i"] h [of "nat (- i)"]
    by (intro strip_eq_self) (auto simp: int_str_def digit_not_space)
  show ?thesis
  proof (cases "i < 0")
    case True
    then show ?thesis using st by (simp add: parse_int_def int_str_def d digits_val_nat_digits)
  next
    case False
    obtain c t where ct: "nat_digits (nat i) = c # t" by (cases "nat_digits (nat i)") auto
    then have "is_digit c" using h [of "nat i"] by simp
    then have "c \<noteq> CHR ''-''" "c \<noteq> CHR ''+''" by (auto simp: is_digit_def)
    then show ?thesis
      using False st d [of "nat i"] digits_val_nat_digits [of "nat i"] ct
      by (simp add: parse_int_def int_str_def)
  qed
qed

subsection \<open>Addresses\<close>

text \<open>\<open>urllib.request.Request\<close> raises for an address without a scheme before its first colon.\<close>

definition has_scheme :: "string \<Rightarrow> bool" where
  "has_scheme url =
     (let u = strip url; s = takeWhile (\<lambda>c. c \<noteq> CHR ''/'' \<and> c \<noteq> CHR '':'') u in
      s \<noteq> [] \<and> starts_with '':'' (drop (length s) u))"

lemma rstrip_keeps: "\<not> is_space c \<Longrightarrow> rstrip (xs @ c # ys) = xs @ c # rstrip ys"
  by (simp add: rstrip_def dropWhile_append split: if_splits)

lemma has_scheme_iff:
  "has_scheme url \<longleftrightarrow> (\<exists>s r. lstrip url = s @ CHR '':'' # r \<and> s \<noteq> [] \<and> CHR ''/'' \<notin> set s \<and> CHR '':'' \<notin> set s)"
  (is "?l \<longleftrightarrow> ?r")
proof
  assume ?l
  then obtain t where t: "takeWhile (\<lambda>c. c \<noteq> CHR ''/'' \<and> c \<noteq> CHR '':'') (strip url) \<noteq> []"
    "drop (length (takeWhile (\<lambda>c. c \<noteq> CHR ''/'' \<and> c \<noteq> CHR '':'') (strip url))) (strip url) = CHR '':'' # t"
    by (auto simp: has_scheme_def Let_def starts_with_iff)
  let ?s = "takeWhile (\<lambda>c. c \<noteq> CHR ''/'' \<and> c \<noteq> CHR '':'') (strip url)"
  have "strip url = ?s @ CHR '':'' # t"
    using t(2) takeWhile_dropWhile_id [of "\<lambda>c. c \<noteq> CHR ''/'' \<and> c \<noteq> CHR '':''" "strip url"]
    by (metis dropWhile_eq_drop)
  moreover obtain u where "lstrip url = strip url @ u"
    unfolding strip_def rstrip_def by (metis rev_append rev_rev_ident takeWhile_dropWhile_id)
  ultimately have "lstrip url = ?s @ CHR '':'' # t @ u" by simp
  moreover have "CHR ''/'' \<notin> set ?s" "CHR '':'' \<notin> set ?s" by (auto dest: set_takeWhileD)
  ultimately show ?r using t(1) by blast
next
  assume ?r
  then obtain s r where r: "lstrip url = s @ CHR '':'' # r" "s \<noteq> []" "CHR ''/'' \<notin> set s" "CHR '':'' \<notin> set s" by blast
  have "strip url = s @ CHR '':'' # rstrip r"
    unfolding strip_def r(1) by (rule rstrip_keeps) (simp add: is_space_def)
  moreover have "takeWhile (\<lambda>c. c \<noteq> CHR ''/'' \<and> c \<noteq> CHR '':'') (s @ CHR '':'' # rstrip r) = s"
    using r(3,4) by (subst takeWhile_append2) auto
  ultimately show ?l using r(2) by (simp add: has_scheme_def)
qed

lemma has_scheme_append:
  assumes "has_scheme base"
  shows "has_scheme (base @ path)"
proof -
  obtain s r where r: "lstrip base = s @ CHR '':'' # r" "s \<noteq> []" "CHR ''/'' \<notin> set s" "CHR '':'' \<notin> set s"
    using assms has_scheme_iff by blast
  then have "lstrip (base @ path) = s @ CHR '':'' # r @ path"
    unfolding lstrip_def by (subst dropWhile_append) (auto simp: dropWhile_eq_Nil_conv [symmetric])
  with r(2-4) show ?thesis unfolding has_scheme_iff by blast
qed

end
