(* ===== verification/PyFloat.thy ===== *)
theory PyFloat
  imports Complex_Main PyStr "HOL-Library.Log_Nat"
begin

text \<open>
  Python's \<open>float\<close>: IEEE 754 binary64, written out. A finite value is the rational it denotes
  (the sign of a zero is not kept), and every operation rounds the exact result to the nearest
  double, ties to even, with gradual underflow and overflow to infinity.
  \<open>round1 x\<close> is \<open>round(x, 1)\<close>, which Python computes from the exact decimal value of the
  double; \<open>float_sum\<close> is \<open>sum\<close> as CPython 3.12 (the image the services run on) computes it,
  with Neumaier's compensation.
\<close>

datatype pyfloat = Fin rat | PosInf | NegInf | NaN

subsection \<open>Rounding\<close>

definition round_half_even :: "rat \<Rightarrow> int" where
  "round_half_even x =
     (let f = \<lfloor>x\<rfloor>; d = x - of_int f
      in if d < 1 / 2 then f else if 1 / 2 < d then f + 1 else if even f then f else f + 1)"

definition pow2 :: "int \<Rightarrow> rat" where
  "pow2 e = (if 0 \<le> e then 2 ^ nat e else 1 / 2 ^ nat (- e))"

definition pow10 :: "int \<Rightarrow> rat" where
  "pow10 e = (if 0 \<le> e then 10 ^ nat e else 1 / 10 ^ nat (- e))"

text \<open>The exponent of the leading bit of a positive rational, and of its leading digit.\<close>

definition lead_exp :: "nat \<Rightarrow> (int \<Rightarrow> rat) \<Rightarrow> rat \<Rightarrow> int" where
  "lead_exp b pw x =
     (let (p, q) = quotient_of x;
          k = int (floorlog b (nat p)) - int (floorlog b (nat q))
      in if pw k \<le> x then k else k - 1)"

definition log2_floor :: "rat \<Rightarrow> int" where
  "log2_floor x = lead_exp 2 pow2 x"

definition fl_quantum :: "rat \<Rightarrow> int" where
  "fl_quantum x = max (log2_floor \<bar>x\<bar> - 52) (- 1074)"

definition fl :: "rat \<Rightarrow> pyfloat" where
  "fl x =
     (if x = 0 then Fin 0
      else let e = fl_quantum x;
               r = of_int (round_half_even (x / pow2 e)) * pow2 e
           in if 2 ^ 1024 \<le> r then PosInf else if r \<le> - (2 ^ 1024) then NegInf else Fin r)"

subsection \<open>Arithmetic and comparison\<close>

fun fneg :: "pyfloat \<Rightarrow> pyfloat" where
  "fneg (Fin a) = Fin (- a)"
| "fneg PosInf = NegInf"
| "fneg NegInf = PosInf"
| "fneg NaN = NaN"

fun fadd :: "pyfloat \<Rightarrow> pyfloat \<Rightarrow> pyfloat" where
  "fadd NaN y = NaN"
| "fadd x NaN = NaN"
| "fadd (Fin a) (Fin b) = fl (a + b)"
| "fadd PosInf NegInf = NaN"
| "fadd NegInf PosInf = NaN"
| "fadd PosInf y = PosInf"
| "fadd NegInf y = NegInf"
| "fadd (Fin a) y = y"

definition fsub :: "pyfloat \<Rightarrow> pyfloat \<Rightarrow> pyfloat" where
  "fsub x y = fadd x (fneg y)"

text \<open>Multiplication and division by a finite positive number, the only ones the code needs.\<close>

fun fmul_pos :: "pyfloat \<Rightarrow> rat \<Rightarrow> pyfloat" where
  "fmul_pos (Fin a) c = fl (a * c)"
| "fmul_pos x c = x"

fun fdiv_pos :: "pyfloat \<Rightarrow> rat \<Rightarrow> pyfloat" where
  "fdiv_pos (Fin a) c = fl (a / c)"
| "fdiv_pos x c = x"

fun fless :: "pyfloat \<Rightarrow> pyfloat \<Rightarrow> bool" where
  "fless NaN y = False"
| "fless x NaN = False"
| "fless (Fin a) (Fin b) = (a < b)"
| "fless PosInf y = False"
| "fless x NegInf = False"
| "fless NegInf y = True"
| "fless x PosInf = True"

fun fabs :: "pyfloat \<Rightarrow> pyfloat" where
  "fabs (Fin a) = Fin \<bar>a\<bar>"
| "fabs NegInf = PosInf"
| "fabs x = x"

fun fge :: "pyfloat \<Rightarrow> pyfloat \<Rightarrow> bool" where
  "fge NaN y = False"
| "fge x NaN = False"
| "fge x y = (\<not> fless x y)"

fun is_finite_float :: "pyfloat \<Rightarrow> bool" where
  "is_finite_float (Fin a) = True"
| "is_finite_float x = False"

text \<open>Truth value: everything but zero.\<close>

definition float_true :: "pyfloat \<Rightarrow> bool" where
  "float_true x = (x \<noteq> Fin 0)"

definition float_of_int :: "int \<Rightarrow> pyfloat" where
  "float_of_int i = fl (of_int i)"

fun round1 :: "pyfloat \<Rightarrow> pyfloat" where
  "round1 (Fin a) = fl (of_int (round_half_even (a * 10)) / 10)"
| "round1 x = x"

fun sum_step :: "pyfloat \<times> pyfloat \<Rightarrow> pyfloat \<Rightarrow> pyfloat \<times> pyfloat" where
  "sum_step (s, c) x =
     (let t = fadd s x
      in (t, fadd c (if fge (fabs s) (fabs x) then fadd (fsub s t) x else fadd (fsub x t) s)))"

definition float_sum :: "pyfloat list \<Rightarrow> pyfloat" where
  "float_sum xs =
     (case foldl sum_step (Fin 0, Fin 0) xs of
        (s, c) \<Rightarrow> if float_true c \<and> is_finite_float c then fadd s c else s)"

text \<open>\<open>min\<close> and \<open>max\<close> of a non-empty list: a later element wins only if it compares strictly.\<close>

definition float_min :: "pyfloat list \<Rightarrow> pyfloat" where
  "float_min xs = foldl (\<lambda>m x. if fless x m then x else m) (hd xs) (tl xs)"

definition float_max :: "pyfloat list \<Rightarrow> pyfloat" where
  "float_max xs = foldl (\<lambda>m x. if fless m x then x else m) (hd xs) (tl xs)"

subsection \<open>float(s) and repr(x)\<close>

definition opt_digits :: "string \<Rightarrow> string option" where
  "opt_digits s = (if s = [] then Some [] else drop_underscores s)"

definition parse_exponent :: "string option \<Rightarrow> int option" where
  "parse_exponent e =
     (case e of
        None \<Rightarrow> Some 0
      | Some s \<Rightarrow>
          (case s of
             [] \<Rightarrow> None
           | c # t \<Rightarrow>
               if c = CHR ''-'' then map_option (\<lambda>d. - int (digits_val d)) (drop_underscores t)
               else if c = CHR ''+'' then map_option (\<lambda>d. int (digits_val d)) (drop_underscores t)
               else map_option (\<lambda>d. int (digits_val d)) (drop_underscores s)))"

definition parse_unsigned :: "string \<Rightarrow> pyfloat option" where
  "parse_unsigned s =
     (if s \<in> {''inf'', ''infinity''} then Some PosInf
      else if s = ''nan'' then Some NaN
      else
        (case split1 ''e'' s of (m, e) \<Rightarrow>
           (case split1 ''.'' m of (a, b) \<Rightarrow>
              (case (opt_digits a, opt_digits (case b of None \<Rightarrow> [] | Some b' \<Rightarrow> b'), parse_exponent e) of
                 (Some da, Some db, Some ex) \<Rightarrow>
                   if da = [] \<and> db = [] then None
                   else Some (fl (of_nat (digits_val (da @ db)) * pow10 (ex - int (length db))))
               | _ \<Rightarrow> None))))"

definition parse_float :: "string \<Rightarrow> pyfloat option" where
  "parse_float raw =
     (case lower (strip raw) of
        [] \<Rightarrow> None
      | c # t \<Rightarrow>
          if c = CHR ''-'' then map_option fneg (parse_unsigned t)
          else if c = CHR ''+'' then parse_unsigned t
          else parse_unsigned (c # t))"

text \<open>
  \<open>repr\<close> prints the shortest decimal that reads back as the same double, and among those the
  closest: the least number of digits \<open>n\<close> for which the nearest \<open>n\<close>-digit decimal does.
\<close>

definition decimal_at :: "rat \<Rightarrow> nat \<Rightarrow> int \<times> int" where
  "decimal_at x n =
     (let s = lead_exp 10 pow10 x - int n + 1 in (round_half_even (x / pow10 s), s))"

fun shortest_from :: "nat \<Rightarrow> nat \<Rightarrow> rat \<Rightarrow> int \<times> int" where
  "shortest_from 0 n x = decimal_at x n"
| "shortest_from (Suc k) n x =
     (let (m, s) = decimal_at x n
      in if fl (of_int m * pow10 s) = Fin x then (m, s) else shortest_from k (Suc n) x)"

definition pos_repr :: "rat \<Rightarrow> string" where
  "pos_repr x =
     (let (m, s) = shortest_from 16 1 x;
          ds = nat_digits (nat m);
          pt = int (length ds) + s;
          d = rstrip_char (CHR ''0'') ds;
          n = int (length d)
      in if - 4 < pt \<and> pt \<le> 16 then
           (if pt \<le> 0 then ''0.'' @ replicate (nat (- pt)) (CHR ''0'') @ d
            else if n \<le> pt then d @ replicate (nat (pt - n)) (CHR ''0'') @ ''.0''
            else take (nat pt) d @ ''.'' @ drop (nat pt) d)
         else
           (let ex = pt - 1; es = nat_digits (nat \<bar>ex\<bar>)
            in take 1 d @ (if length d > 1 then ''.'' @ drop 1 d else []) @ ''e''
               @ (if ex < 0 then ''-'' else ''+'') @ (if length es < 2 then ''0'' else []) @ es))"

fun float_repr :: "pyfloat \<Rightarrow> string" where
  "float_repr (Fin a) =
     (if a = 0 then ''0.0'' else if a < 0 then ''-'' @ pos_repr (- a) else pos_repr a)"
| "float_repr PosInf = ''inf''"
| "float_repr NegInf = ''-inf''"
| "float_repr NaN = ''nan''"

subsection \<open>Facts about rounding\<close>

lemma round_half_even_of_int [simp]: "round_half_even (of_int n) = n"
  by (simp add: round_half_even_def)

lemma round_half_even_numeral [simp]: "round_half_even (numeral n) = numeral n" "round_half_even 1 = 1"
  using round_half_even_of_int [of "numeral n"] round_half_even_of_int [of 1] by simp_all

lemma round_half_even_bounds: "\<lfloor>x\<rfloor> \<le> round_half_even x \<and> round_half_even x \<le> \<lfloor>x\<rfloor> + 1"
  by (simp add: round_half_even_def Let_def)

lemma round_half_even_le: "x \<le> of_int n \<Longrightarrow> round_half_even x \<le> n"
proof (cases "x = of_int n")
  case False
  assume "x \<le> of_int n"
  with False have "\<lfloor>x\<rfloor> < n" by (simp add: floor_less_iff)
  then show ?thesis using round_half_even_bounds [of x] by linarith
qed simp

lemma round_half_even_ge: "of_int n \<le> x \<Longrightarrow> n \<le> round_half_even x"
  using round_half_even_bounds [of x] le_floor_iff [of n x] by linarith

lemma pow2_pos [simp]: "0 < pow2 e"
  by (simp add: pow2_def)

lemma pow2_add: "pow2 (a + b) = pow2 a * pow2 b"
proof -
  have "pow2 e = 2 powi e" for e
    by (simp add: pow2_def power_int_def divide_simps)
  then show ?thesis by (simp add: power_int_add)
qed

lemma pow2_nat: "pow2 (int n) = 2 ^ n"
  by (simp add: pow2_def)

text \<open>A multiple of the quantum is representable, so rounding does not cross it.\<close>

lemma int_multiple_of_pow2: "e \<le> 0 \<Longrightarrow> \<exists>k. (of_int n :: rat) = of_int k * pow2 e"
proof (intro exI)
  assume "e \<le> 0"
  then have "pow2 (- e) * pow2 e = 1" using pow2_add [of "- e" e] by (simp add: pow2_def)
  moreover have "pow2 (- e) = of_int (2 ^ nat (- e))" using \<open>e \<le> 0\<close> by (simp add: pow2_def)
  ultimately show "(of_int n :: rat) = of_int (n * 2 ^ nat (- e)) * pow2 e" by simp
qed

lemma pow2_neq_0 [simp]: "pow2 e \<noteq> 0"
  using pow2_pos [of e] by linarith

lemma pow2_diff: "pow2 (a - b) = pow2 a / pow2 b"
  using pow2_add [of "a - b" b] by simp

lemma pow2_mono: "a \<le> b \<Longrightarrow> pow2 a \<le> pow2 b"
proof -
  assume "a \<le> b"
  then have "pow2 (b - a) = 2 ^ nat (b - a)" by (simp add: pow2_def)
  then have "1 \<le> pow2 (b - a)" by simp
  then have "1 * pow2 a \<le> pow2 (b - a) * pow2 a" by (intro mult_right_mono) (simp_all add: less_imp_le)
  then show ?thesis using pow2_add [of "b - a" a] by simp
qed

lemma log2_floor_le:
  assumes "0 < x"
  shows "pow2 (log2_floor x) \<le> x"
proof -
  obtain p q where pq: "quotient_of x = (p, q)" by (cases "quotient_of x") auto
  then have x: "x = of_int p / of_int q" and q: "0 < q"
    by (auto simp: quotient_of_div quotient_of_denom_pos)
  with assms have p: "0 < p" by (simp add: zero_less_divide_iff)
  let ?a = "floorlog 2 (nat p)" and ?b = "floorlog 2 (nat q)"
  have bp: "2 ^ (?a - 1) \<le> nat p" and bq: "nat q < 2 ^ ?b"
    using floorlog_bounds [of "nat p" 2] floorlog_bounds [of "nat q" 2] p q by auto
  have a1: "1 \<le> ?a" using p floorlog_eq_zero_iff [of 2 "nat p"] by linarith
  have "(of_nat (2 ^ (?a - 1)) :: rat) \<le> of_nat (nat p)" using bp by (simp only: of_nat_le_iff)
  then have P: "(2 ^ (?a - 1) :: rat) \<le> of_int p" using p by simp
  have "(of_nat (nat q) :: rat) \<le> of_nat (2 ^ ?b)" using bq by (simp only: of_nat_le_iff less_imp_le)
  then have Q: "(of_int q :: rat) \<le> 2 ^ ?b" using q by simp
  have "pow2 (int ?a - int ?b - 1) = 2 ^ (?a - 1) / 2 ^ ?b"
    using pow2_diff [of "int (?a - 1)" "int ?b"] a1 pow2_nat [of "?a - 1"] pow2_nat [of ?b]
    by (simp add: of_nat_diff algebra_simps)
  also have "\<dots> \<le> of_int p / of_int q" by (rule frac_le) (use P Q p q in auto)
  finally have "pow2 (int ?a - int ?b - 1) \<le> x" by (simp add: x)
  then show ?thesis by (simp add: log2_floor_def lead_exp_def pq Let_def)
qed

lemma fl_quantum_nonpos:
  assumes "x \<noteq> 0" and "\<bar>x\<bar> < 2 ^ 53"
  shows "fl_quantum x \<le> 0"
proof -
  have "log2_floor \<bar>x\<bar> < 53"
  proof (rule ccontr)
    assume "\<not> log2_floor \<bar>x\<bar> < 53"
    then have "pow2 53 \<le> pow2 (log2_floor \<bar>x\<bar>)" by (intro pow2_mono) simp
    also have "\<dots> \<le> \<bar>x\<bar>" by (rule log2_floor_le) (use assms in simp)
    finally show False using assms(2) by (simp add: pow2_def)
  qed
  then show ?thesis by (simp add: fl_quantum_def)
qed

lemma small_not_overflow: "\<bar>r\<bar> < (2 ^ 53 :: rat) \<Longrightarrow> \<not> 2 ^ 1024 \<le> r \<and> \<not> r \<le> - (2 ^ 1024)"
proof -
  assume r: "\<bar>r\<bar> < (2 ^ 53 :: rat)"
  have "(2 ^ 53 :: rat) \<le> 2 ^ 1024" by (rule power_increasing) simp_all
  with r show ?thesis by (auto simp: abs_less_iff)
qed

text \<open>Integers below \<open>2 ^ 53\<close> are doubles.\<close>

lemma fl_of_int:
  assumes "\<bar>n\<bar> < 2 ^ 53"
  shows "fl (of_int n) = Fin (of_int n)"
proof (cases "n = 0")
  case False
  have r: "\<bar>of_int n :: rat\<bar> < 2 ^ 53"
    using assms by (metis of_int_abs of_int_less_iff of_int_numeral of_int_power)
  let ?e = "fl_quantum (of_int n)"
  have "?e \<le> 0" by (rule fl_quantum_nonpos) (use False r in auto)
  then obtain k where k: "(of_int n :: rat) = of_int k * pow2 ?e"
    using int_multiple_of_pow2 by blast
  then have "(of_int n :: rat) / pow2 ?e = of_int k"
    by (metis nonzero_mult_div_cancel_right pow2_neq_0)
  then have "of_int (round_half_even (of_int n / pow2 ?e)) * pow2 ?e = (of_int n :: rat)"
    using k by simp
  then show ?thesis using False small_not_overflow [OF r] by (simp add: fl_def Let_def)
qed (simp add: fl_def)

lemma fl_zero [simp]: "fl 0 = Fin 0"
  by (simp add: fl_def)

lemma fl_numeral: "numeral n < (2 ^ 53 :: int) \<Longrightarrow> fl (numeral n) = Fin (numeral n)"
  using fl_of_int [of "numeral n"] by simp

lemma fl_one [simp]: "fl 1 = Fin 1"
  using fl_of_int [of 1] by simp

text \<open>Rounding stays between 0 and an integer bound: percentages stay percentages.\<close>

lemma fl_bounds:
  assumes "0 \<le> x" and "x \<le> of_int n" and "n < 2 ^ 53"
  shows "\<exists>r. fl x = Fin r \<and> 0 \<le> r \<and> r \<le> of_int n"
proof (cases "x = 0")
  case True
  with assms show ?thesis by simp
next
  case False
  have n53: "(of_int n :: rat) < 2 ^ 53"
    using assms(3) by (metis of_int_less_iff of_int_numeral of_int_power)
  let ?e = "fl_quantum x"
  let ?m = "round_half_even (x / pow2 ?e)"
  have "?e \<le> 0" by (rule fl_quantum_nonpos) (use False assms n53 in auto)
  then obtain k where k: "(of_int n :: rat) = of_int k * pow2 ?e"
    using int_multiple_of_pow2 by blast
  have "x / pow2 ?e \<le> of_int k"
    using assms(2) k pow2_pos [of ?e] by (simp add: divide_le_eq)
  then have "?m \<le> k" by (rule round_half_even_le)
  then have "of_int ?m * pow2 ?e \<le> of_int k * pow2 ?e"
    by (intro mult_right_mono) (simp_all add: less_imp_le)
  moreover have "0 \<le> ?m"
    by (rule round_half_even_ge) (use assms(1) pow2_pos [of ?e] in \<open>simp add: less_imp_le\<close>)
  then have "0 \<le> of_int ?m * pow2 ?e" by (simp add: less_imp_le)
  ultimately have b: "0 \<le> of_int ?m * pow2 ?e \<and> of_int ?m * pow2 ?e \<le> of_int n"
    using k by simp
  then have "\<bar>of_int ?m * pow2 ?e\<bar> < 2 ^ 53" using n53 by simp
  from small_not_overflow [OF this] b False show ?thesis by (simp add: fl_def Let_def)
qed

lemma round1_bounds:
  assumes "0 \<le> x" and "x \<le> of_int n" and "n < 2 ^ 53"
  shows "\<exists>r. round1 (Fin x) = Fin r \<and> 0 \<le> r \<and> r \<le> of_int n"
proof -
  have "0 \<le> round_half_even (x * 10)" by (rule round_half_even_ge) (use assms(1) in simp)
  moreover have "round_half_even (x * 10) \<le> n * 10"
    by (rule round_half_even_le) (use assms(2) in simp)
  then have "(of_int (round_half_even (x * 10)) :: rat) \<le> of_int (n * 10)"
    by (simp only: of_int_le_iff)
  ultimately show ?thesis
    using fl_bounds [of "of_int (round_half_even (x * 10)) / 10" n] assms(3) by simp
qed

lemma round1_of_int: "\<bar>n\<bar> < 2 ^ 53 \<Longrightarrow> round1 (Fin (of_int n)) = Fin (of_int n)"
proof -
  assume n: "\<bar>n\<bar> < 2 ^ 53"
  have "round_half_even (of_int n * 10) = n * 10"
    using round_half_even_of_int [of "n * 10"] by simp
  then show ?thesis using fl_of_int [OF n] by simp
qed

lemma round1_numeral: "numeral n < (2 ^ 53 :: int) \<Longrightarrow> round1 (Fin (numeral n)) = Fin (numeral n)"
  using round1_of_int [of "numeral n"] by simp

lemma round1_zero_one: "round1 (Fin 0) = Fin 0" "round1 (Fin 1) = Fin 1"
  using round1_of_int [of 0] round1_of_int [of 1] by simp_all

lemmas float_eval = fl_numeral round1_numeral round1_zero_one

end
