(* ===== verification/PyJson.thy ===== *)
theory PyJson
  imports PyFloat
begin

text \<open>
  The values \<open>json.loads\<close> returns, as the code handles them: truth value, \<open>in\<close>, indexing,
  \<open>dict.get\<close>, \<open>isinstance\<close>, the conversions \<open>str\<close>, \<open>int\<close> and \<open>float\<close> with the exceptions
  they raise, and the text \<open>json.dumps\<close> writes. An object is the list of its items in
  insertion order (\<open>json.loads\<close> keeps one item per key).
\<close>

datatype json =
    JNull
  | JBool bool
  | JInt int
  | JFloat pyfloat
  | JStr string
  | JArr "json list"
  | JObj "(string \<times> json) list"

type_synonym jobj = "(string \<times> json) list"

subsection \<open>Truth value, membership, indexing\<close>

fun truthy :: "json \<Rightarrow> bool" where
  "truthy JNull = False"
| "truthy (JBool b) = b"
| "truthy (JInt i) = (i \<noteq> 0)"
| "truthy (JFloat x) = float_true x"
| "truthy (JStr s) = (s \<noteq> [])"
| "truthy (JArr xs) = (xs \<noteq> [])"
| "truthy (JObj d) = (d \<noteq> [])"

text \<open>\<open>a or b\<close>.\<close>

definition py_or :: "json \<Rightarrow> json \<Rightarrow> json" where
  "py_or a b = (if truthy a then a else b)"

text \<open>\<open>d.get(k, default)\<close> on an object.\<close>

definition dget :: "jobj \<Rightarrow> string \<Rightarrow> json \<Rightarrow> json" where
  "dget d k v = (case map_of d k of None \<Rightarrow> v | Some x \<Rightarrow> x)"

text \<open>\<open>x.get(k, default)\<close> on any value: only an object has the method.\<close>

definition jget :: "json \<Rightarrow> string \<Rightarrow> json \<Rightarrow> json res" where
  "jget x k v = (case x of JObj d \<Rightarrow> Inr (dget d k v) | _ \<Rightarrow> Inl AttributeError)"

definition is_obj :: "json \<Rightarrow> bool" where
  "is_obj x = (case x of JObj _ \<Rightarrow> True | _ \<Rightarrow> False)"

text \<open>\<open>k in x\<close> and \<open>x[k]\<close> for a string \<open>k\<close>.\<close>

fun json_in :: "string \<Rightarrow> json \<Rightarrow> bool res" where
  "json_in k (JObj d) = Inr (k \<in> fst ` set d)"
| "json_in k (JArr xs) = Inr (JStr k \<in> set xs)"
| "json_in k (JStr s) = Inr (contains k s)"
| "json_in k x = Inl TypeError"

fun json_index :: "json \<Rightarrow> string \<Rightarrow> json res" where
  "json_index (JObj d) k = (case map_of d k of None \<Rightarrow> Inl KeyError | Some v \<Rightarrow> Inr v)"
| "json_index x k = Inl TypeError"

subsection \<open>Conversions\<close>

fun hex_digit :: "nat \<Rightarrow> char" where
  "hex_digit n = (if n < 10 then char_of (48 + n) else char_of (87 + n))"

definition hex2 :: "char \<Rightarrow> string" where
  "hex2 c = [hex_digit (code c div 16), hex_digit (code c mod 16)]"

definition printable :: "char \<Rightarrow> bool" where
  "printable c = (let n = code c in (32 \<le> n \<and> n \<le> 126) \<or> (161 \<le> n \<and> n \<noteq> 173))"

definition repr_char :: "char \<Rightarrow> char \<Rightarrow> string" where
  "repr_char q c =
     (if c = q \<or> c = CHR 0x5C then [CHR 0x5C, c]
      else if c = NL then [CHR 0x5C, CHR ''n'']
      else if c = CHR 0x0D then [CHR 0x5C, CHR ''r'']
      else if c = CHR 0x09 then [CHR 0x5C, CHR ''t'']
      else if printable c then [c]
      else [CHR 0x5C, CHR ''x''] @ hex2 c)"

definition repr_str :: "string \<Rightarrow> string" where
  "repr_str s =
     (let q = (if CHR 0x27 \<in> set s \<and> CHR 0x22 \<notin> set s then CHR 0x22 else CHR 0x27)
      in q # concat (map (repr_char q) s) @ [q])"

fun py_repr :: "json \<Rightarrow> string" where
  "py_repr JNull = ''None''"
| "py_repr (JBool b) = (if b then ''True'' else ''False'')"
| "py_repr (JInt i) = int_str i"
| "py_repr (JFloat x) = float_repr x"
| "py_repr (JStr s) = repr_str s"
| "py_repr (JArr xs) = ''['' @ join '', '' (map py_repr xs) @ '']''"
| "py_repr (JObj d) =
     ''{'' @ join '', '' (map (\<lambda>(k, v). repr_str k @ '': '' @ py_repr v) d) @ ''}''"

text \<open>\<open>str(x)\<close>.\<close>

definition py_str :: "json \<Rightarrow> string" where
  "py_str x = (case x of JStr s \<Rightarrow> s | _ \<Rightarrow> py_repr x)"

text \<open>\<open>int(x)\<close>; a float is cut towards zero.\<close>

fun py_int :: "json \<Rightarrow> int res" where
  "py_int (JBool b) = Inr (if b then 1 else 0)"
| "py_int (JInt i) = Inr i"
| "py_int (JFloat (Fin a)) = Inr (if a < 0 then - \<lfloor>- a\<rfloor> else \<lfloor>a\<rfloor>)"
| "py_int (JFloat NaN) = Inl (ValueError ''cannot convert float NaN to integer'')"
| "py_int (JFloat x) = Inl OverflowError"
| "py_int (JStr s) =
     (case parse_int s of
        None \<Rightarrow> Inl (ValueError ''invalid literal for int() with base 10'') | Some i \<Rightarrow> Inr i)"
| "py_int x = Inl TypeError"

text \<open>\<open>float(x)\<close>.\<close>

fun py_float :: "json \<Rightarrow> pyfloat res" where
  "py_float (JBool b) = Inr (Fin (if b then 1 else 0))"
| "py_float (JInt i) =
     (case float_of_int i of Fin a \<Rightarrow> Inr (Fin a) | _ \<Rightarrow> Inl OverflowError)"
| "py_float (JFloat x) = Inr x"
| "py_float (JStr s) =
     (case parse_float s of
        None \<Rightarrow> Inl (ValueError ''could not convert string to float'') | Some x \<Rightarrow> Inr x)"
| "py_float x = Inl TypeError"

text \<open>Values the models require to be strings, or lists of strings.\<close>

definition as_str :: "json \<Rightarrow> string res" where
  "as_str x = (case x of JStr s \<Rightarrow> Inr s | _ \<Rightarrow> Inl OutOfSchema)"

definition as_strs :: "json \<Rightarrow> string list res" where
  "as_strs x = (case x of JArr xs \<Rightarrow> rmap as_str xs | _ \<Rightarrow> Inl OutOfSchema)"

lemma as_str_JStr [simp]: "as_str (JStr s) = Inr s"
  by (simp add: as_str_def)

lemma as_strs_map_JStr [simp]: "as_strs (JArr (map JStr ss)) = Inr ss"
proof -
  have "rmap as_str (map JStr ss) = Inr (map (\<lambda>j. case j of JStr s \<Rightarrow> s | _ \<Rightarrow> []) (map JStr ss))"
    by (rule rmap_total) auto
  then show ?thesis by (simp add: as_strs_def comp_def)
qed

lemma as_strs_Nil [simp]: "as_strs (JArr []) = Inr []"
  by (simp add: as_strs_def)

lemma py_str_JStr [simp]: "py_str (JStr s) = s"
  by (simp add: py_str_def)

subsection \<open>json.dumps\<close>

definition dumps_char :: "char \<Rightarrow> string" where
  "dumps_char c =
     (if c = CHR 0x22 \<or> c = CHR 0x5C then [CHR 0x5C, c]
      else if c = NL then [CHR 0x5C, CHR ''n'']
      else if c = CHR 0x0D then [CHR 0x5C, CHR ''r'']
      else if c = CHR 0x09 then [CHR 0x5C, CHR ''t'']
      else if c = CHR 0x0C then [CHR 0x5C, CHR ''f'']
      else if c = CHR 0x08 then [CHR 0x5C, CHR ''b'']
      else if 32 \<le> code c \<and> code c \<le> 126 then [c]
      else [CHR 0x5C, CHR ''u'', CHR ''0'', CHR ''0''] @ hex2 c)"

definition dumps_str :: "string \<Rightarrow> string" where
  "dumps_str s = CHR 0x22 # concat (map dumps_char s) @ [CHR 0x22]"

fun dumps_float :: "pyfloat \<Rightarrow> string" where
  "dumps_float PosInf = ''Infinity''"
| "dumps_float NegInf = ''-Infinity''"
| "dumps_float NaN = ''NaN''"
| "dumps_float x = float_repr x"

fun dumps :: "json \<Rightarrow> string" where
  "dumps JNull = ''null''"
| "dumps (JBool b) = (if b then ''true'' else ''false'')"
| "dumps (JInt i) = int_str i"
| "dumps (JFloat x) = dumps_float x"
| "dumps (JStr s) = dumps_str s"
| "dumps (JArr xs) = ''['' @ join '', '' (map dumps xs) @ '']''"
| "dumps (JObj d) =
     ''{'' @ join '', '' (map (\<lambda>(k, v). dumps_str k @ '': '' @ dumps v) d) @ ''}''"

text \<open>A float or nothing, as the code's \<open>rtt_ms\<close> and friends are.\<close>

definition json_of_rtt :: "pyfloat option \<Rightarrow> json" where
  "json_of_rtt r = (case r of None \<Rightarrow> JNull | Some x \<Rightarrow> JFloat x)"

end
