(* ===== verification/Nodes.thy ===== *)
theory Nodes
  imports PyJson "HOL-Library.Multiset"
begin

text \<open>
  The dedup planner of \<open>node-dedup/dedup.py\<close>: \<open>_g\<close>, \<open>normalize\<close>, \<open>plan_actions\<close>,
  \<open>apply_action\<close> and \<open>plan_route_approvals\<close>, and their correctness: which nodes are deleted,
  renamed and kept, that a second round has nothing left to delete or rename, and that route
  approval only adds routes and is idempotent.
\<close>

subsection \<open>Raw nodes and their normal form\<close>

fun g_get :: "json \<Rightarrow> string list \<Rightarrow> json \<Rightarrow> json res" where
  "g_get d [] dflt = Inr dflt"
| "g_get d (k # ks) dflt =
     rbind (json_in k d) (\<lambda>b.
       if b then rbind (json_index d k) (\<lambda>v. if v \<noteq> JNull then Inr v else g_get d ks dflt)
       else g_get d ks dflt)"

record node =
  node_id :: string
  hostname :: string
  given_name :: string
  user :: string
  online :: bool
  last_seen :: int
  ips :: "string list"
  machine_key :: string

text \<open>\<open>v or ""\<close> for a value the schema says is a string.\<close>

definition str_or_empty :: "json \<Rightarrow> string res" where
  "str_or_empty v = (if truthy v then as_str v else Inr [])"

definition normalize_node :: "json \<Rightarrow> node res" where
  "normalize_node n =
     rbind (g_get n [''lastSeen'', ''last_seen''] (JObj [])) (\<lambda>ls0.
     let ls = py_or ls0 (JObj []);
         last = (case ls of JObj d \<Rightarrow> dget d ''seconds'' (JInt 0) | _ \<Rightarrow> JInt 0) in
     rbind (g_get n [''user''] (JObj [])) (\<lambda>u0.
     let u = py_or u0 (JObj []) in
     rbind (g_get n [''id''] (JStr [])) (\<lambda>i.
     rbind (rbind (g_get n [''name''] (JStr [])) str_or_empty) (\<lambda>h.
     rbind (rbind (g_get n [''givenName'', ''given_name''] (JStr [])) str_or_empty) (\<lambda>gn.
     rbind (case u of JObj d \<Rightarrow> str_or_empty (dget d ''name'' (JStr [])) | _ \<Rightarrow> Inr (py_str u)) (\<lambda>un.
     rbind (g_get n [''online''] (JBool False)) (\<lambda>onl.
     rbind (py_int (py_or last (JInt 0))) (\<lambda>seen.
     rbind (g_get n [''ipAddresses'', ''ip_addresses''] (JArr [])) (\<lambda>ip0.
     rbind (as_strs (py_or ip0 (JArr []))) (\<lambda>addrs.
     rbind (rbind (g_get n [''machineKey'', ''machine_key''] (JStr [])) str_or_empty) (\<lambda>mk.
     Inr \<lparr>node_id = py_str i, hostname = h, given_name = gn, user = un, online = truthy onl,
          last_seen = seen, ips = addrs, machine_key = mk\<rparr>)))))))))))"

definition normalize :: "json list \<Rightarrow> node list res" where
  "normalize raw_nodes = rmap normalize_node raw_nodes"

subsection \<open>The plan\<close>

datatype action =
    Skip (act_id: string) (act_name: string) (act_reason: string)
  | Delete (act_id: string) (act_name: string) (act_reason: string)
  | Rename (act_id: string) (act_from: string) (act_to: string)

text \<open>
  The keeper's sort key \<open>(1 if online else 0, last_seen, id)\<close>; Python compares such tuples
  lexicographically and strings by code point.
\<close>

definition rank :: "node \<Rightarrow> nat \<times> int \<times> string" where
  "rank n = (if online n then 1 else 0, last_seen n, node_id n)"

definition keeper_of :: "('n \<Rightarrow> 'r::linorder) \<Rightarrow> 'n list \<Rightarrow> 'n" where
  "keeper_of r g = hd (sorted_rev_key r g)"

definition dup_action :: "string \<Rightarrow> string \<Rightarrow> node \<Rightarrow> action" where
  "dup_action u h n =
     (if online n
      then Skip (node_id n) (given_name n) ''trung nhung dang ONLINE -> khong xoa''
      else Delete (node_id n) (given_name n)
             (''trung hostname '' @ [CHR 0x27] @ h @ [CHR 0x27] @ '' (user '' @ u @ '')''))"

definition group_actions :: "string \<Rightarrow> string \<Rightarrow> node list \<Rightarrow> action list" where
  "group_actions u h g =
     (let keeper = keeper_of rank g in
      map (dup_action u h) (filter (\<lambda>n. node_id n \<noteq> node_id keeper) g)
      @ (if given_name keeper \<noteq> h then [Rename (node_id keeper) (given_name keeper) h] else []))"

definition owner_key :: "node \<Rightarrow> string \<times> string" where
  "owner_key n = (user n, hostname n)"

definition node_groups :: "node list \<Rightarrow> ((string \<times> string) \<times> node list) list" where
  "node_groups nodes = sort_key fst (group_by owner_key nodes)"

definition plan_actions :: "node list \<Rightarrow> action list" where
  "plan_actions nodes =
     concat (map (\<lambda>((u, h), g). if h = [] then [] else group_actions u h g) (node_groups nodes))"

subsection \<open>Requests to the Headscale API\<close>

datatype request = Request (req_method: string) (req_path: string) (req_body: "json option")

definition apply_action :: "action \<Rightarrow> request option" where
  "apply_action a =
     (case a of
        Skip _ _ _ \<Rightarrow> None
      | Delete i _ _ \<Rightarrow> Some (Request ''DELETE'' (''/api/v1/node/'' @ i) None)
      | Rename i _ t \<Rightarrow> Some (Request ''POST'' (''/api/v1/node/'' @ i @ ''/rename/'' @ t) None))"

subsection \<open>Route approval\<close>

definition raw_routes :: "json \<Rightarrow> string list \<Rightarrow> string list res" where
  "raw_routes n keys =
     rbind (g_get n keys (JArr [])) (\<lambda>v. as_strs (py_or v (JArr [])))"

definition node_approval :: "json \<Rightarrow> (string \<times> string list) option res" where
  "node_approval n =
     rbind (g_get n [''id''] (JStr [])) (\<lambda>i.
     let nid = py_str (py_or i (JStr [])) in
     if nid = [] then Inr None
     else
       rbind (raw_routes n [''availableRoutes'', ''available_routes'']) (\<lambda>available.
       rbind (raw_routes n [''approvedRoutes'', ''approved_routes'']) (\<lambda>approved.
       if set available - set approved \<noteq> {}
       then Inr (Some (nid, sort (remdups (approved @ available))))
       else Inr None)))"

definition plan_route_approvals :: "json list \<Rightarrow> (string \<times> string list) list res" where
  "plan_route_approvals raw_nodes =
     rbind (rmap node_approval raw_nodes) (\<lambda>os. Inr (somes os))"

subsection \<open>Choosing a keeper: the interface of the planner\<close>

text \<open>
  The planner relies on one law of its sort key: a busy (online) element outranks every idle one.
  Everything it promises about keepers follows from that law.
\<close>

locale busy_ranking =
  fixes r :: "'n \<Rightarrow> 'r::linorder"
    and busy :: "'n \<Rightarrow> bool"
  assumes busy_mono: "busy n \<Longrightarrow> r n \<le> r m \<Longrightarrow> busy m"
begin

lemma keeper_in: "g \<noteq> [] \<Longrightarrow> keeper_of r g \<in> set g"
  unfolding keeper_of_def by (metis list.set_sel(1) set_sorted_rev_key sorted_rev_key_Nil)

lemma keeper_max: "n \<in> set g \<Longrightarrow> r n \<le> r (keeper_of r g)"
  unfolding keeper_of_def by (rule hd_sorted_rev_key_max)

lemma keeper_busy: "n \<in> set g \<Longrightarrow> busy n \<Longrightarrow> busy (keeper_of r g)"
  using keeper_max busy_mono by blast

text \<open>A keeper that survives a selection stays a keeper, up to elements of the same rank.\<close>

lemma keeper_stable:
  assumes "set g' \<subseteq> set g" and "keeper_of r g \<in> set g'"
  shows "r (keeper_of r g') = r (keeper_of r g)"
proof (rule antisym)
  from assms(2) have "g' \<noteq> []" by auto
  then have "keeper_of r g' \<in> set g" using keeper_in assms(1) by blast
  then show "r (keeper_of r g') \<le> r (keeper_of r g)" by (rule keeper_max)
  show "r (keeper_of r g) \<le> r (keeper_of r g')" using assms(2) by (rule keeper_max)
qed

end

interpretation nk: busy_ranking rank online
  by unfold_locales (auto simp: rank_def less_eq_prod_def split: if_splits)

subsection \<open>What the plan contains\<close>

definition peers :: "node list \<Rightarrow> node \<Rightarrow> node list" where
  "peers nodes n = filter (\<lambda>m. owner_key m = owner_key n) nodes"

definition keeper :: "node list \<Rightarrow> node \<Rightarrow> node" where
  "keeper nodes n = keeper_of rank (peers nodes n)"

lemma set_peers: "m \<in> set (peers nodes n) \<longleftrightarrow> m \<in> set nodes \<and> owner_key m = owner_key n"
  by (auto simp: peers_def)

lemma peers_cong: "owner_key m = owner_key n \<Longrightarrow> peers nodes m = peers nodes n"
  by (simp add: peers_def)

lemma keeper_cong: "owner_key m = owner_key n \<Longrightarrow> keeper nodes m = keeper nodes n"
  unfolding keeper_def by (simp only: peers_cong [of m n nodes])

lemma keeper_facts:
  assumes "n \<in> set nodes"
  shows "keeper nodes n \<in> set nodes" and "owner_key (keeper nodes n) = owner_key n"
    and "rank n \<le> rank (keeper nodes n)" and "online n \<Longrightarrow> online (keeper nodes n)"
proof -
  have n: "n \<in> set (peers nodes n)" using assms by (simp add: set_peers)
  then have "peers nodes n \<noteq> []" by auto
  then have "keeper nodes n \<in> set (peers nodes n)"
    unfolding keeper_def by (rule nk.keeper_in)
  then show "keeper nodes n \<in> set nodes" and "owner_key (keeper nodes n) = owner_key n"
    by (simp_all add: set_peers)
  show "rank n \<le> rank (keeper nodes n)" unfolding keeper_def using n by (rule nk.keeper_max)
  show "online n \<Longrightarrow> online (keeper nodes n)" unfolding keeper_def using n by (rule nk.keeper_busy)
qed

lemma set_node_groups:
  "((u, h), g) \<in> set (node_groups nodes) \<longleftrightarrow>
   (\<exists>n \<in> set nodes. owner_key n = (u, h) \<and> g = peers nodes n)"
  by (auto simp: node_groups_def group_by_entry_iff peers_def intro: rev_image_eqI)

lemma set_plan_actions:
  "a \<in> set (plan_actions nodes) \<longleftrightarrow>
   (\<exists>n \<in> set nodes. hostname n \<noteq> [] \<and> a \<in> set (group_actions (user n) (hostname n) (peers nodes n)))"
proof -
  have "a \<in> set (plan_actions nodes) \<longleftrightarrow>
     (\<exists>u h g. ((u, h), g) \<in> set (node_groups nodes) \<and> h \<noteq> [] \<and> a \<in> set (group_actions u h g))"
    by (fastforce simp: plan_actions_def split: prod.splits if_splits)
  then show ?thesis by (auto simp: set_node_groups owner_key_def)
qed

lemma set_group_actions:
  "a \<in> set (group_actions (user n) (hostname n) (peers nodes n)) \<longleftrightarrow>
   (\<exists>m \<in> set nodes. owner_key m = owner_key n \<and> node_id m \<noteq> node_id (keeper nodes m)
      \<and> a = dup_action (user m) (hostname m) m)
   \<or> (given_name (keeper nodes n) \<noteq> hostname n
      \<and> a = Rename (node_id (keeper nodes n)) (given_name (keeper nodes n)) (hostname n))"
proof -
  have "keeper_of rank (peers nodes n) = keeper nodes n" by (simp add: keeper_def)
  then have "a \<in> set (group_actions (user n) (hostname n) (peers nodes n)) \<longleftrightarrow>
      (\<exists>m \<in> set (peers nodes n). node_id m \<noteq> node_id (keeper nodes n)
        \<and> a = dup_action (user n) (hostname n) m)
      \<or> (given_name (keeper nodes n) \<noteq> hostname n
        \<and> a = Rename (node_id (keeper nodes n)) (given_name (keeper nodes n)) (hostname n))"
    unfolding group_actions_def Let_def by auto
  moreover have "keeper nodes m = keeper nodes n \<and> user m = user n \<and> hostname m = hostname n"
    if "owner_key m = owner_key n" for m
    using that keeper_cong [OF that] by (simp add: owner_key_def)
  ultimately show ?thesis by (metis set_peers)
qed

lemma in_plan_iff:
  "a \<in> set (plan_actions nodes) \<longleftrightarrow>
   (\<exists>n \<in> set nodes. hostname n \<noteq> [] \<and>
      ((node_id n \<noteq> node_id (keeper nodes n) \<and> a = dup_action (user n) (hostname n) n)
       \<or> (given_name (keeper nodes n) \<noteq> hostname n
          \<and> a = Rename (node_id (keeper nodes n)) (given_name (keeper nodes n)) (hostname n))))"
proof
  assume "a \<in> set (plan_actions nodes)"
  then obtain n where n: "n \<in> set nodes" "hostname n \<noteq> []"
    and "a \<in> set (group_actions (user n) (hostname n) (peers nodes n))"
    unfolding set_plan_actions by blast
  then consider m where "m \<in> set nodes" "owner_key m = owner_key n"
      "node_id m \<noteq> node_id (keeper nodes m)" "a = dup_action (user m) (hostname m) m"
    | "given_name (keeper nodes n) \<noteq> hostname n"
      "a = Rename (node_id (keeper nodes n)) (given_name (keeper nodes n)) (hostname n)"
    unfolding set_group_actions by blast
  then show "\<exists>n \<in> set nodes. hostname n \<noteq> [] \<and>
      ((node_id n \<noteq> node_id (keeper nodes n) \<and> a = dup_action (user n) (hostname n) n)
       \<or> (given_name (keeper nodes n) \<noteq> hostname n
          \<and> a = Rename (node_id (keeper nodes n)) (given_name (keeper nodes n)) (hostname n)))"
  proof cases
    case 1
    then have "hostname m \<noteq> []" using n by (simp add: owner_key_def)
    with 1 show ?thesis by blast
  next
    case 2
    with n show ?thesis by blast
  qed
next
  assume "\<exists>n \<in> set nodes. hostname n \<noteq> [] \<and>
      ((node_id n \<noteq> node_id (keeper nodes n) \<and> a = dup_action (user n) (hostname n) n)
       \<or> (given_name (keeper nodes n) \<noteq> hostname n
          \<and> a = Rename (node_id (keeper nodes n)) (given_name (keeper nodes n)) (hostname n)))"
  then show "a \<in> set (plan_actions nodes)"
    unfolding set_plan_actions set_group_actions by blast
qed

definition delete_reason :: "node \<Rightarrow> string" where
  "delete_reason n =
     ''trung hostname '' @ [CHR 0x27] @ hostname n @ [CHR 0x27] @ '' (user '' @ user n @ '')''"

lemma delete_in_plan:
  "Delete i nm rs \<in> set (plan_actions nodes) \<longleftrightarrow>
   (\<exists>n \<in> set nodes. hostname n \<noteq> [] \<and> \<not> online n \<and> node_id n \<noteq> node_id (keeper nodes n)
      \<and> i = node_id n \<and> nm = given_name n \<and> rs = delete_reason n)"
  by (auto simp: in_plan_iff dup_action_def delete_reason_def)

lemma rename_in_plan:
  "Rename i f t \<in> set (plan_actions nodes) \<longleftrightarrow>
   (\<exists>n \<in> set nodes. hostname n \<noteq> [] \<and> given_name (keeper nodes n) \<noteq> hostname n
      \<and> i = node_id (keeper nodes n) \<and> f = given_name (keeper nodes n) \<and> t = hostname n)"
  by (auto simp: in_plan_iff dup_action_def)

lemma distinct_ids_eq:
  "distinct (map node_id nodes) \<Longrightarrow> n \<in> set nodes \<Longrightarrow> m \<in> set nodes \<Longrightarrow> node_id n = node_id m
   \<Longrightarrow> n = m"
  by (metis (no_types) distinct_map inj_onD)

lemma keeper_not_deleted:
  assumes d: "distinct (map node_id nodes)" and n: "n \<in> set nodes"
  shows "Delete (node_id (keeper nodes n)) nm rs \<notin> set (plan_actions nodes)"
proof
  assume "Delete (node_id (keeper nodes n)) nm rs \<in> set (plan_actions nodes)"
  then obtain m where m: "m \<in> set nodes" "node_id m = node_id (keeper nodes n)"
    "node_id m \<noteq> node_id (keeper nodes m)"
    by (auto simp: delete_in_plan)
  then have "m = keeper nodes n" using distinct_ids_eq [OF d] keeper_facts(1) [OF n] by blast
  then have "keeper nodes m = keeper nodes n" using keeper_cong keeper_facts(2) [OF n] by blast
  with m show False by simp
qed

lemma rename_target:
  assumes "distinct (map node_id nodes)" and "k \<in> set nodes"
    and "Rename (node_id k) f t \<in> set (plan_actions nodes)"
  shows "t = hostname k"
proof -
  from assms(3) obtain n where n: "n \<in> set nodes" "node_id k = node_id (keeper nodes n)" "t = hostname n"
    by (auto simp: rename_in_plan)
  then have "k = keeper nodes n"
    using distinct_ids_eq [OF assms(1,2)] keeper_facts(1) by blast
  then show ?thesis using keeper_facts(2) [OF n(1)] n(3) by (simp add: owner_key_def)
qed

subsection \<open>Properties of the plan\<close>

text \<open>C1: A deletion names an offline node that has another, higher ranked node of the same user
  and hostname, which the plan does not delete; no online node is ever deleted.\<close>

theorem plan_never_deletes_online:
  assumes "distinct (map node_id nodes)" and "Delete i nm rs \<in> set (plan_actions nodes)"
  shows "(\<exists>n k. n \<in> set nodes \<and> k \<in> set nodes \<and> node_id n = i \<and> \<not> online n \<and> hostname n \<noteq> []
      \<and> owner_key k = owner_key n \<and> node_id k \<noteq> i \<and> rank n \<le> rank k
      \<and> (\<forall>nm' rs'. Delete (node_id k) nm' rs' \<notin> set (plan_actions nodes)))
    \<and> (\<forall>n. n \<in> set nodes \<and> node_id n = i \<longrightarrow> \<not> online n)"
proof -
  from assms(2) obtain n where n: "n \<in> set nodes" "hostname n \<noteq> []" "\<not> online n"
    "node_id n \<noteq> node_id (keeper nodes n)" "i = node_id n"
    by (auto simp: delete_in_plan)
  moreover have "\<forall>m. m \<in> set nodes \<and> node_id m = i \<longrightarrow> \<not> online m"
    using distinct_ids_eq [OF assms(1) _ n(1)] n by blast
  ultimately show ?thesis
    using keeper_facts [OF n(1)] keeper_not_deleted [OF assms(1) n(1)] by metis
qed

definition sample_nodes :: "node list" where
  "sample_nodes =
     [\<lparr>node_id = ''8'', hostname = ''itop'', given_name = ''itop'', user = ''u'', online = False,
       last_seen = 100, ips = [], machine_key = []\<rparr>,
      \<lparr>node_id = ''15'', hostname = ''itop'', given_name = ''itop-i8'', user = ''u'', online = True,
       last_seen = 300, ips = [], machine_key = []\<rparr>]"

lemma sample_plan:
  "plan_actions sample_nodes =
     [Delete ''8'' ''itop'' (''trung hostname '' @ [CHR 0x27] @ ''itop'' @ [CHR 0x27] @ '' (user u)''),
      Rename ''15'' ''itop-i8'' ''itop'']"
  by code_simp

theorem plan_never_deletes_online_witness:
  "\<exists>n. n \<in> set sample_nodes \<and> node_id n = ''8'' \<and> \<not> online n"
proof -
  have d: "distinct (map node_id sample_nodes)" by (simp add: sample_nodes_def)
  have "Delete ''8'' ''itop'' (''trung hostname '' @ [CHR 0x27] @ ''itop'' @ [CHR 0x27] @ '' (user u)'')
      \<in> set (plan_actions sample_nodes)" by (simp add: sample_plan)
  from plan_never_deletes_online [OF d this] show ?thesis by blast
qed

text \<open>C2: Exactly the offline nodes with a hostname that are not their group's keeper are deleted,
  and exactly the online ones of them are skipped.\<close>

theorem plan_deletes_exactly:
  assumes "distinct (map node_id nodes)" and "n \<in> set nodes"
  shows "((\<exists>nm rs. Delete (node_id n) nm rs \<in> set (plan_actions nodes)) \<longleftrightarrow>
      hostname n \<noteq> [] \<and> \<not> online n \<and> n \<noteq> keeper nodes n)
    \<and> ((\<exists>nm rs. Skip (node_id n) nm rs \<in> set (plan_actions nodes)) \<longleftrightarrow>
      hostname n \<noteq> [] \<and> online n \<and> n \<noteq> keeper nodes n)"
proof -
  have eq: "node_id n = node_id m \<longleftrightarrow> n = m" if "m \<in> set nodes" for m
    using distinct_ids_eq [OF assms(1) assms(2) that] by blast
  have k: "node_id n \<noteq> node_id (keeper nodes n) \<longleftrightarrow> n \<noteq> keeper nodes n"
    using eq [OF keeper_facts(1) [OF assms(2)]] by auto
  have del: "(\<exists>nm rs. Delete (node_id n) nm rs \<in> set (plan_actions nodes)) \<longleftrightarrow>
      (\<exists>m \<in> set nodes. node_id n = node_id m \<and> hostname m \<noteq> [] \<and> \<not> online m
        \<and> node_id m \<noteq> node_id (keeper nodes m))"
    unfolding delete_in_plan by blast
  have skip: "(\<exists>nm rs. Skip (node_id n) nm rs \<in> set (plan_actions nodes)) \<longleftrightarrow>
      (\<exists>m \<in> set nodes. node_id n = node_id m \<and> hostname m \<noteq> [] \<and> online m
        \<and> node_id m \<noteq> node_id (keeper nodes m))"
    unfolding in_plan_iff by (auto simp: dup_action_def)
  have one: "(\<exists>m \<in> set nodes. node_id n = node_id m \<and> P m) \<longleftrightarrow> P n" for P
    using eq assms(2) by auto
  show ?thesis unfolding del skip one k by blast
qed

theorem plan_deletes_exactly_witness:
  "(\<exists>nm rs. Delete ''8'' nm rs \<in> set (plan_actions sample_nodes)) \<and> sample_nodes ! 0 \<noteq> keeper sample_nodes (sample_nodes ! 0)"
proof -
  have d: "distinct (map node_id sample_nodes)" by (simp add: sample_nodes_def)
  have n: "sample_nodes ! 0 \<in> set sample_nodes" by (simp add: sample_nodes_def)
  have "node_id (sample_nodes ! 0) = ''8''" by (simp add: sample_nodes_def)
  then show ?thesis using plan_deletes_exactly [OF d n] by (auto simp: sample_plan)
qed

subsection \<open>Carrying the plan out\<close>

text \<open>The name a node has after the renames of a list of actions.\<close>

definition rename_step :: "action \<Rightarrow> node \<Rightarrow> node" where
  "rename_step a n =
     (case a of Rename i f t \<Rightarrow> if node_id n = i then n\<lparr>given_name := t\<rparr> else n | _ \<Rightarrow> n)"

definition renamed :: "action list \<Rightarrow> node \<Rightarrow> node" where
  "renamed acts n = fold rename_step acts n"

definition deleted_ids :: "action list \<Rightarrow> string set" where
  "deleted_ids acts = {i. \<exists>nm rs. Delete i nm rs \<in> set acts}"

lemma rename_step_keeps [simp]:
  "node_id (rename_step a n) = node_id n" "hostname (rename_step a n) = hostname n"
  "user (rename_step a n) = user n" "online (rename_step a n) = online n"
  "last_seen (rename_step a n) = last_seen n"
  by (simp_all add: rename_step_def split: action.split)

lemma rename_step_simps [simp]:
  "rename_step (Skip i nm rs) n = n" "rename_step (Delete i nm rs) n = n"
  "rename_step (Rename i f t) n = (if node_id n = i then n\<lparr>given_name := t\<rparr> else n)"
  by (simp_all add: rename_step_def)

lemma renamed_Nil [simp]: "renamed [] n = n"
  by (simp add: renamed_def)

lemma renamed_Cons: "renamed (a # acts) n = renamed acts (rename_step a n)"
  by (simp add: renamed_def)

lemma renamed_keeps [simp]:
  "node_id (renamed acts n) = node_id n" "hostname (renamed acts n) = hostname n"
  "user (renamed acts n) = user n" "online (renamed acts n) = online n"
  "last_seen (renamed acts n) = last_seen n"
  by (induction acts arbitrary: n) (simp_all add: renamed_Cons)

lemma renamed_rank [simp]: "rank (renamed acts n) = rank n" "owner_key (renamed acts n) = owner_key n"
  by (simp_all add: rank_def owner_key_def)

lemma given_name_renamed:
  "(\<And>f t. Rename (node_id n) f t \<in> set acts \<Longrightarrow> t = h) \<Longrightarrow>
   given_name (renamed acts n) = (if \<exists>f t. Rename (node_id n) f t \<in> set acts then h else given_name n)"
proof (induction acts arbitrary: n)
  case (Cons a acts)
  have "given_name (renamed acts (rename_step a n))
      = (if \<exists>f t. Rename (node_id n) f t \<in> set acts then h else given_name (rename_step a n))"
    using Cons.IH [of "rename_step a n"] Cons.prems by (metis list.set_intros(2) rename_step_keeps(1))
  moreover have "given_name (rename_step a n) = (if \<exists>f t. a = Rename (node_id n) f t then h else given_name n)"
    using Cons.prems by (cases a) auto
  ultimately show ?case by (auto simp: renamed_Cons)
qed simp

text \<open>
  A server that deletes and renames as the Headscale API documents ends a round with the kept
  nodes under their new names.
\<close>

lemma fold_actions:
  assumes "\<And>i nm rs ns. srv (Delete i nm rs) ns = filter (\<lambda>n. node_id n \<noteq> i) ns"
    and "\<And>i f t ns. srv (Rename i f t) ns = map (rename_step (Rename i f t)) ns"
    and "\<And>i nm rs ns. srv (Skip i nm rs) ns = ns"
  shows "fold srv acts ns = map (renamed acts) (filter (\<lambda>n. node_id n \<notin> deleted_ids acts) ns)"
proof (induction acts arbitrary: ns)
  case Nil
  then show ?case by (simp add: deleted_ids_def)
next
  case (Cons a acts)
  show ?case
  proof (cases a)
    case (Skip i nm rs)
    then show ?thesis using Cons.IH assms(3) by (simp add: renamed_Cons deleted_ids_def)
  next
    case (Delete i nm rs)
    have "deleted_ids (Delete i nm rs # acts) = insert i (deleted_ids acts)"
      by (auto simp: deleted_ids_def)
    then show ?thesis using Delete Cons.IH assms(1)
      by (simp add: renamed_Cons conj_commute)
  next
    case (Rename i f t)
    have "deleted_ids (Rename i f t # acts) = deleted_ids acts" by (simp add: deleted_ids_def)
    then show ?thesis using Rename Cons.IH assms(2)
      by (simp add: renamed_Cons filter_map comp_def del: rename_step_simps)
  qed
qed

text \<open>What is left after a plan, and its keepers: those of before, under their hostname.\<close>

definition after_plan :: "node list \<Rightarrow> node list" where
  "after_plan nodes =
     map (renamed (plan_actions nodes)) (filter (\<lambda>n. node_id n \<notin> deleted_ids (plan_actions nodes)) nodes)"

lemma in_after_plan:
  assumes "m' \<in> set (after_plan nodes)"
  obtains m where "m \<in> set nodes" "m' = renamed (plan_actions nodes) m" "node_id m \<notin> deleted_ids (plan_actions nodes)"
  using assms by (auto simp: after_plan_def)

lemma keeper_after_plan:
  assumes d: "distinct (map node_id nodes)" and n: "n \<in> set nodes" "renamed (plan_actions nodes) n \<in> set (after_plan nodes)"
  shows "keeper (after_plan nodes) (renamed (plan_actions nodes) n) = renamed (plan_actions nodes) (keeper nodes n)"
proof -
  let ?plan = "plan_actions nodes" and ?k = "keeper nodes n"
  have k: "?k \<in> set nodes" "owner_key ?k = owner_key n" using keeper_facts [OF n(1)] by auto
  have "node_id ?k \<notin> deleted_ids ?plan"
    using keeper_not_deleted [OF d n(1)] by (simp add: deleted_ids_def)
  then have k_after: "renamed ?plan ?k \<in> set (after_plan nodes)" using k(1) by (simp add: after_plan_def)
  obtain m where m: "m \<in> set nodes" "keeper (after_plan nodes) (renamed ?plan n) = renamed ?plan m"
    using in_after_plan [OF keeper_facts(1) [OF n(2)]] by blast
  then have "owner_key m = owner_key n" using keeper_facts(2) [OF n(2)] by simp
  then have "rank m \<le> rank ?k" using keeper_facts(3) [OF m(1)] keeper_cong by metis
  moreover have "keeper (after_plan nodes) (renamed ?plan ?k) = keeper (after_plan nodes) (renamed ?plan n)"
    by (rule keeper_cong) (simp add: k(2))
  then have "rank ?k \<le> rank m" using keeper_facts(3) [OF k_after] m(2) by simp
  ultimately have "rank m = rank ?k" by simp
  then have "node_id m = node_id ?k" by (simp add: rank_def)
  then show ?thesis using distinct_ids_eq [OF d m(1) k(1)] m(2) by simp
qed

lemma keeper_gets_hostname:
  assumes d: "distinct (map node_id nodes)" and n: "n \<in> set nodes" "hostname n \<noteq> []"
  shows "given_name (renamed (plan_actions nodes) (keeper nodes n)) = hostname n"
proof -
  let ?plan = "plan_actions nodes" and ?k = "keeper nodes n"
  have k: "?k \<in> set nodes" "owner_key ?k = owner_key n" using keeper_facts [OF n(1)] by auto
  have kk: "keeper nodes ?k = ?k" using keeper_cong [OF k(2)] by simp
  have h: "hostname ?k = hostname n" using k(2) by (simp add: owner_key_def)
  have ren: "Rename (node_id ?k) f t \<in> set ?plan \<Longrightarrow> t = hostname ?k" for f t
    by (rule rename_target [OF d k(1)])
  have "\<exists>f t. Rename (node_id ?k) f t \<in> set ?plan" if "given_name ?k \<noteq> hostname ?k"
    using that k(1) n(2) kk h by (metis (no_types) rename_in_plan)
  then show ?thesis using given_name_renamed [of ?k ?plan, OF ren] h by auto
qed


fun documented_server :: "action \<Rightarrow> node list \<Rightarrow> node list" where
  "documented_server (Skip i nm rs) ns = ns"
| "documented_server (Delete i nm rs) ns = filter (\<lambda>n. node_id n \<noteq> i) ns"
| "documented_server (Rename i f t) ns =
     map (\<lambda>n. if node_id n = i then n\<lparr>given_name := t\<rparr> else n) ns"

definition busy_pair :: "node list" where
  "busy_pair = map (\<lambda>n. n\<lparr>online := True\<rparr>) sample_nodes"


subsection \<open>The order of the plan\<close>

text \<open>In a concatenation of blocks, what follows a block comes from the later blocks.\<close>

lemma concat_block_split:
  assumes "concat (map F gs) = xs @ y # ys"
  shows "\<exists>gs1 g gs2 as bs. gs = gs1 @ g # gs2 \<and> F g = as @ y # bs
    \<and> xs = concat (map F gs1) @ as \<and> ys = bs @ concat (map F gs2)"
  using assms
proof (induction gs arbitrary: xs)
  case (Cons g gs)
  from Cons.prems have "F g @ concat (map F gs) = xs @ y # ys" by simp
  then consider us where "F g = xs @ us" "us @ concat (map F gs) = y # ys" "us \<noteq> []"
    | us where "xs = F g @ us" "concat (map F gs) = us @ y # ys"
    by (auto simp: append_eq_append_conv2 append_eq_Cons_conv)
  then show ?case
  proof cases
    case 1
    then obtain us' where "us = y # us'" "ys = us' @ concat (map F gs)" by (cases us) auto
    with 1 have "g # gs = [] @ g # gs \<and> F g = xs @ y # us' \<and> xs = concat (map F []) @ xs
        \<and> ys = us' @ concat (map F gs)" by simp
    then show ?thesis by blast
  next
    case 2
    from Cons.IH [OF 2(2)] obtain gs1 h gs2 as bs where
      "gs = gs1 @ h # gs2" "F h = as @ y # bs" "us = concat (map F gs1) @ as"
      "ys = bs @ concat (map F gs2)" by blast
    with 2(1) have "g # gs = (g # gs1) @ h # gs2 \<and> F h = as @ y # bs
        \<and> xs = concat (map F (g # gs1)) @ as \<and> ys = bs @ concat (map F gs2)" by simp
    then show ?thesis by blast
  qed
qed simp

lemma distinct_node_groups: "distinct (map fst (node_groups nodes))"
proof -
  have "mset (map fst (node_groups nodes)) = mset (map fst (group_by owner_key nodes))"
    by (simp add: node_groups_def)
  then show ?thesis using distinct_keys_group_by by (metis mset_eq_imp_distinct_iff)
qed

lemma group_actions_rename_last:
  assumes "group_actions u h g = as @ Rename i f t # bs"
  shows "bs = []"
proof -
  let ?dups = "map (dup_action u h) (filter (\<lambda>n. node_id n \<noteq> node_id (keeper_of rank g)) g)"
  have no: "Rename i f t \<notin> set ?dups" by (auto simp: dup_action_def)
  have "\<exists>rs. group_actions u h g = ?dups @ rs \<and> length rs \<le> 1"
    by (auto simp: group_actions_def Let_def)
  then obtain rs where rs: "?dups @ rs = as @ Rename i f t # bs" "length rs \<le> 1"
    using assms by auto
  then obtain us where "?dups = as @ us \<and> us @ rs = Rename i f t # bs
      \<or> ?dups @ us = as \<and> rs = us @ Rename i f t # bs"
    unfolding append_eq_append_conv2 by blast
  then show ?thesis
  proof
    assume us: "?dups = as @ us \<and> us @ rs = Rename i f t # bs"
    then have "us = []" using no by (cases us) auto
    with us rs(2) show ?thesis by simp
  qed (use rs(2) in simp)
qed


definition two_devices :: "node list" where
  "two_devices =
     [\<lparr>node_id = ''1'', hostname = ''a'', given_name = ''a-x'', user = ''u'', online = True,
       last_seen = 0, ips = [], machine_key = []\<rparr>,
      \<lparr>node_id = ''2'', hostname = ''b'', given_name = ''b'', user = ''u'', online = False,
       last_seen = 5, ips = [], machine_key = []\<rparr>,
      \<lparr>node_id = ''3'', hostname = ''b'', given_name = ''b'', user = ''u'', online = False,
       last_seen = 9, ips = [], machine_key = []\<rparr>]"


subsection \<open>Normalisation\<close>

text \<open>
  The JSON of a node in the two spellings the code accepts: the HTTP API's camelCase and the
  command line's snake_case.
\<close>

definition node_json :: "bool \<Rightarrow> node \<Rightarrow> json" where
  "node_json camel n =
     JObj [(''id'', JStr (node_id n)), (''name'', JStr (hostname n)),
       (if camel then ''givenName'' else ''given_name'', JStr (given_name n)),
       (''user'', JObj [(''name'', JStr (user n))]),
       (''online'', JBool (online n)),
       (if camel then ''lastSeen'' else ''last_seen'', JObj [(''seconds'', JInt (last_seen n))]),
       (if camel then ''ipAddresses'' else ''ip_addresses'', JArr (map JStr (ips n))),
       (if camel then ''machineKey'' else ''machine_key'', JStr (machine_key n))]"

lemma str_or_empty_JStr [simp]: "str_or_empty (JStr s) = Inr s"
  by (simp add: str_or_empty_def)

lemma as_strs_py_or [simp]: "as_strs (py_or (JArr (map JStr ss)) (JArr [])) = Inr ss"
  by (cases ss) (simp_all add: py_or_def flip: list.map)

lemma py_or_int [simp]: "py_or (JInt i) (JInt 0) = JInt i"
  by (simp add: py_or_def)

text \<open>Normalising a well-formed list of nodes loses nothing: both spellings give back the node
  they describe, field by field, in order.\<close>

theorem normalize_roundtrip:
  "normalize (map (node_json camel) nodes) = Inr nodes"
proof -
  have "normalize_node (node_json camel n) = Inr n" for n
    by (cases camel) (simp_all add: normalize_node_def node_json_def py_or_def [of "JObj _"] dget_def Let_def)
  then have "rmap normalize_node (map (node_json camel) nodes) = Inr nodes"
    by (induction nodes) simp_all
  then show ?thesis by (simp add: normalize_def)
qed

subsection \<open>Approving routes\<close>

declare g_get.simps [simp del]

text \<open>A \<open>lastSeen\<close> that is text counts as never seen.\<close>

lemma last_seen_needs_object:
  assumes "normalize_node (JObj d) = Inr n" and "map_of d ''lastSeen'' = Some (JStr t)"
  shows "last_seen n = 0"
proof -
  have "''lastSeen'' \<in> fst ` set d" using assms(2) by (metis map_of_eq_None_iff option.distinct(1))
  then have "g_get (JObj d) [''lastSeen'', ''last_seen''] (JObj []) = Inr (JStr t)"
    using assms(2) by (simp add: g_get.simps)
  then show ?thesis using assms(1)
    by (cases "t = []") (auto simp: normalize_node_def res_simps py_or_def dget_def Let_def)
qed

lemma node_approval_Some:
  assumes "node_approval n = Inr (Some (nid, routes))"
  obtains i available approved where
    "g_get n [''id''] (JStr []) = Inr i" "nid = py_str (py_or i (JStr []))" "nid \<noteq> []"
    "raw_routes n [''availableRoutes'', ''available_routes''] = Inr available"
    "raw_routes n [''approvedRoutes'', ''approved_routes''] = Inr approved"
    "\<not> set available \<subseteq> set approved" "routes = sort (remdups (approved @ available))"
  using assms by (auto simp: node_approval_def res_simps Let_def split: if_splits)

lemma set_approvals:
  assumes "plan_route_approvals raw = Inr plan"
  shows "p \<in> set plan \<longleftrightarrow> (\<exists>n \<in> set raw. node_approval n = Inr (Some p))"
proof -
  from assms obtain os where os: "rmap node_approval raw = Inr os" "plan = somes os"
    by (auto simp: plan_route_approvals_def res_simps)
  then have "list_all2 (\<lambda>x y. node_approval x = Inr y) raw os" by (simp add: rmap_Inr_iff)
  then have "Some p \<in> set os \<longleftrightarrow> (\<exists>n \<in> set raw. node_approval n = Inr (Some p))"
    by (induction rule: list_all2_induct) auto
  then show ?thesis by (simp add: os(2))
qed


definition route_node :: json where
  "route_node = JObj [(''id'', JInt 7), (''available_routes'', JArr [JStr ''192.168.1.0/24'']),
     (''approved_routes'', JArr [JStr ''10.0.0.0/8''])]"

lemma route_node_plan:
  "plan_route_approvals [route_node] = Inr [(''7'', [''10.0.0.0/8'', ''192.168.1.0/24''])]"
  by code_simp


text \<open>C28: Approval is idempotent: a node whose approved routes contain what the plan sent for it
  gets no entry in the next round.\<close>

theorem route_approval_idempotent:
  assumes "node_approval n = Inr (Some (nid, routes))"
    and "g_get n' [''id''] (JStr []) = g_get n [''id''] (JStr [])"
    and "raw_routes n' [''availableRoutes'', ''available_routes'']
      = raw_routes n [''availableRoutes'', ''available_routes'']"
    and "raw_routes n' [''approvedRoutes'', ''approved_routes''] = Inr approved'"
    and "set routes \<subseteq> set approved'"
  shows "plan_route_approvals [n'] = Inr []"
  using assms(1)
proof (rule node_approval_Some)
  fix i available approved
  assume a: "g_get n [''id''] (JStr []) = Inr i"
    "raw_routes n [''availableRoutes'', ''available_routes''] = Inr available"
    "routes = sort (remdups (approved @ available))"
  then have "set available \<subseteq> set approved'" using assms(5) by auto
  then have "node_approval n' = Inr None"
    using a assms(2-4) by (auto simp: node_approval_def Let_def)
  then show ?thesis by (simp add: plan_route_approvals_def)
qed

theorem route_approval_idempotent_witness:
  "plan_route_approvals
     [JObj [(''id'', JInt 7), (''available_routes'', JArr [JStr ''192.168.1.0/24'']),
       (''approved_routes'', JArr [JStr ''10.0.0.0/8'', JStr ''192.168.1.0/24''])]] = Inr []"
proof -
  have "node_approval route_node = Inr (Some (''7'', [''10.0.0.0/8'', ''192.168.1.0/24'']))"
    by code_simp
  then show ?thesis
    by (rule route_approval_idempotent [where approved' = "[''10.0.0.0/8'', ''192.168.1.0/24'']"])
      (code_simp, code_simp, code_simp, simp)
qed

end
