(* ===== verification/Ping.thy ===== *)
theory Ping
  imports Nodes
begin

text \<open>
  Pings from the server side of \<open>node-dedup/dedup.py\<close>: \<open>parse_pingresult\<close>,
  \<open>pingable_nodes\<close> and \<open>server_ping_all\<close>. The LocalAPI call itself is the parameter
  \<open>ping_fn\<close>, as it is in the code; its answer is any JSON value or \<open>None\<close> (\<open>JNull\<close>).
\<close>

record ping =
  p_ok :: bool
  p_rtt :: "pyfloat option"
  p_path :: string

record sample =
  s_dst :: string
  s_dst_ip :: string
  s_rtt :: "pyfloat option"
  s_path :: string
  s_ok :: bool

definition failed_ping :: ping where
  "failed_ping = \<lparr>p_ok = False, p_rtt = None, p_path = []\<rparr>"

text \<open>The path of a successful ping: direct, or the DERP region that relays it.\<close>

definition ping_path :: "jobj \<Rightarrow> string" where
  "ping_path pr =
     (if truthy (dget pr ''Endpoint'' JNull) then ''direct''
      else let derp = py_or (dget pr ''DERPRegionCode'' JNull) (dget pr ''DERPRegionID'' JNull)
           in if truthy derp then ''derp:'' @ py_str derp else ''direct'')"

definition parse_pingresult :: "json \<Rightarrow> ping res" where
  "parse_pingresult pr =
     (case pr of
        JObj d \<Rightarrow>
          if truthy (dget d ''Err'' JNull) then Inr failed_ping
          else let lat = py_or (dget d ''LatencySeconds'' JNull) (JInt 0)
               in if \<not> truthy lat then Inr failed_ping
                  else rbind (py_float lat) (\<lambda>x.
                    Inr \<lparr>p_ok = True, p_rtt = Some (round1 (fmul_pos x 1000)), p_path = ping_path d\<rparr>)
      | _ \<Rightarrow> Inr failed_ping)"

text \<open>The first address without a colon, as in \<open>next((ip for ip in ips if ":" not in ip), "")\<close>.\<close>

definition first_ipv4 :: "string list \<Rightarrow> string" where
  "first_ipv4 addrs = next_or (\<lambda>ip. CHR '':'' \<notin> set ip) addrs []"

definition pingable_nodes :: "string \<Rightarrow> node list \<Rightarrow> (string \<times> string) list" where
  "pingable_nodes src_name nodes =
     somes (map (\<lambda>n.
       if \<not> online n then None
       else if hostname n = [] \<or> hostname n = src_name then None
       else let ip4 = first_ipv4 (ips n) in
         if ip4 = [] then None else Some (hostname n, ip4)) nodes)"

definition sample_of :: "string \<Rightarrow> string \<Rightarrow> ping \<Rightarrow> sample" where
  "sample_of dst ip r =
     \<lparr>s_dst = dst, s_dst_ip = ip, s_rtt = p_rtt r, s_path = p_path r, s_ok = p_ok r\<rparr>"

definition server_ping_all :: "string \<Rightarrow> node list \<Rightarrow> (string \<Rightarrow> json) \<Rightarrow> sample list res" where
  "server_ping_all src_name nodes ping_fn =
     rmap (\<lambda>(host, ip4). rbind (parse_pingresult (ping_fn ip4)) (\<lambda>r. Inr (sample_of host ip4 r)))
       (pingable_nodes src_name nodes)"

subsection \<open>Facts\<close>

lemma in_pingable_nodes:
  "(h, ip) \<in> set (pingable_nodes src nodes) \<longleftrightarrow>
   (\<exists>n \<in> set nodes. online n \<and> hostname n = h \<and> h \<noteq> [] \<and> h \<noteq> src
      \<and> ip = first_ipv4 (ips n) \<and> ip \<noteq> [])"
  by (auto simp: pingable_nodes_def Let_def image_iff split: if_splits)

lemma first_ipv4_cases:
  "first_ipv4 addrs = [] \<or> first_ipv4 addrs \<in> set addrs \<and> CHR '':'' \<notin> set (first_ipv4 addrs)"
  unfolding first_ipv4_def
  by (metis (mono_tags, lifting) next_or_cases [of "\<lambda>ip. CHR '':'' \<notin> set ip" addrs "[]"])

lemma parse_pingresult_cases:
  assumes "parse_pingresult pr = Inr r"
  shows "r = failed_ping \<or>
    (\<exists>d lat x. pr = JObj d \<and> \<not> truthy (dget d ''Err'' JNull) \<and> truthy lat
       \<and> lat = dget d ''LatencySeconds'' JNull \<and> py_float lat = Inr x
       \<and> r = \<lparr>p_ok = True, p_rtt = Some (round1 (fmul_pos x 1000)), p_path = ping_path d\<rparr>)"
  using assms
  by (auto simp: parse_pingresult_def Let_def res_simps py_or_def split: json.splits if_splits)

text \<open>A ping is ok exactly when it has a round-trip time.\<close>

lemma parse_pingresult_ok: "parse_pingresult pr = Inr r \<Longrightarrow> p_ok r \<longleftrightarrow> p_rtt r \<noteq> None"
  by (auto dest!: parse_pingresult_cases simp: failed_ping_def)

lemma server_ping_all_dsts:
  assumes "server_ping_all src nodes f = Inr ss"
  shows "map (\<lambda>s. (s_dst s, s_dst_ip s)) ss = pingable_nodes src nodes"
proof -
  have "list_all2 (\<lambda>x y. (case x of (host, ip4) \<Rightarrow>
      rbind (parse_pingresult (f ip4)) (\<lambda>r. Inr (sample_of host ip4 r))) = Inr y)
      (pingable_nodes src nodes) ss"
    using assms by (simp add: server_ping_all_def rmap_Inr_iff)
  then show ?thesis
    by (induction rule: list_all2_induct) (auto simp: res_simps sample_of_def)
qed

text \<open>The server pings exactly the online nodes with a hostname other than its own and an IPv4
  address, one sample each in node order; no offline node is ever pinged, and a sample is ok
  exactly when it carries a round-trip time.\<close>

theorem server_pings_only_live_nodes:
  assumes "server_ping_all src nodes f = Inr ss" and "s \<in> set ss"
  shows "(\<exists>n. n \<in> set nodes \<and> online n \<and> hostname n = s_dst s \<and> s_dst s \<noteq> [] \<and> s_dst s \<noteq> src
      \<and> s_dst_ip s \<in> set (ips n) \<and> CHR '':'' \<notin> set (s_dst_ip s))
    \<and> (s_ok s \<longleftrightarrow> s_rtt s \<noteq> None) \<and> length ss = length (pingable_nodes src nodes)"
proof -
  have m: "map (\<lambda>s. (s_dst s, s_dst_ip s)) ss = pingable_nodes src nodes"
    using assms(1) by (rule server_ping_all_dsts)
  then have "(s_dst s, s_dst_ip s) \<in> set (pingable_nodes src nodes)"
    using assms(2) by (metis (mono_tags, lifting) image_eqI list.set_map)
  then have "\<exists>n. n \<in> set nodes \<and> online n \<and> hostname n = s_dst s \<and> s_dst s \<noteq> [] \<and> s_dst s \<noteq> src
      \<and> s_dst_ip s \<in> set (ips n) \<and> CHR '':'' \<notin> set (s_dst_ip s)"
    unfolding in_pingable_nodes using first_ipv4_cases by metis
  moreover have "s_ok s \<longleftrightarrow> s_rtt s \<noteq> None"
    using rmap_member [OF assms(1) [unfolded server_ping_all_def] assms(2)] parse_pingresult_ok
    by (auto simp: res_simps sample_of_def)
  moreover have "length ss = length (pingable_nodes src nodes)"
    using m by (metis length_map)
  ultimately show ?thesis by blast
qed

definition live_and_dead :: "node list" where
  "live_and_dead =
     [\<lparr>node_id = ''1'', hostname = ''alive'', given_name = ''alive'', user = ''u'', online = True,
       last_seen = 0, ips = [''fd7a::2'', ''100.64.0.2''], machine_key = []\<rparr>,
      \<lparr>node_id = ''2'', hostname = ''dead'', given_name = ''dead'', user = ''u'', online = False,
       last_seen = 0, ips = [''100.64.0.3''], machine_key = []\<rparr>]"

definition alive_sample :: sample where
  "alive_sample =
     \<lparr>s_dst = ''alive'', s_dst_ip = ''100.64.0.2'', s_rtt = Some (Fin 2000), s_path = ''direct'', s_ok = True\<rparr>"

lemma live_and_dead_pings:
  "server_ping_all ''collector'' live_and_dead
     (\<lambda>ip. JObj [(''LatencySeconds'', JInt 2), (''Endpoint'', JStr ''1.2.3.4:41641'')]) = Inr [alive_sample]"
proof -
  have p: "pingable_nodes ''collector'' live_and_dead = [(''alive'', ''100.64.0.2'')]" by code_simp
  have "parse_pingresult (JObj [(''LatencySeconds'', JInt 2), (''Endpoint'', JStr ''1.2.3.4:41641'')])
      = Inr \<lparr>p_ok = True, p_rtt = Some (Fin 2000), p_path = ''direct''\<rparr>"
    by (simp add: parse_pingresult_def dget_def py_or_def ping_path_def float_of_int_def float_eval
        del: round1.simps)
  then show ?thesis by (simp add: server_ping_all_def p sample_of_def alive_sample_def)
qed

theorem server_pings_only_live_nodes_witness:
  "\<exists>n. n \<in> set live_and_dead \<and> online n \<and> hostname n = ''alive''"
  using server_pings_only_live_nodes [OF live_and_dead_pings, of alive_sample]
  by (auto simp: alive_sample_def)

end
