(* ===== verification/Report.thy ===== *)
theory Report
  imports Ping
begin

text \<open>
  Reports that nodes post to the collector: \<open>validate_report\<close> of \<open>node-dedup/dedup.py\<close>.
  A report is any JSON value; the result is the checked report or the exception the code raises
  (the handler answers 400 to each of them).
\<close>

record report =
  rep_hostname :: string
  rep_ipv4 :: string
  rep_mac :: string
  rep_samples :: "sample list"

text \<open>\<open>str(obj.get(k, "")).strip()\<close>.\<close>

definition text_field :: "jobj \<Rightarrow> string \<Rightarrow> string" where
  "text_field d k = strip (py_str (dget d k (JStr [])))"

text \<open>The \<open>try: float(rtt)\<close> of a sample: \<open>TypeError\<close> and \<open>ValueError\<close> give \<open>None\<close>.\<close>

definition sample_rtt :: "json \<Rightarrow> pyfloat option res" where
  "sample_rtt v =
     (if v = JNull then Inr None
      else (case py_float v of
              Inr x \<Rightarrow> Inr (Some x)
            | Inl e \<Rightarrow> (case e of TypeError \<Rightarrow> Inr None | ValueError _ \<Rightarrow> Inr None | _ \<Rightarrow> Inl e)))"

definition validate_sample :: "json \<Rightarrow> sample option res" where
  "validate_sample s =
     (case s of
        JObj d \<Rightarrow>
          (let dst = text_field d ''dst'' in
           if dst = [] then Inr None
           else rbind (sample_rtt (dget d ''rtt_ms'' JNull)) (\<lambda>rtt.
             Inr (Some \<lparr>s_dst = dst, s_dst_ip = text_field d ''dst_ip'', s_rtt = rtt,
                        s_path = text_field d ''path'',
                        s_ok = truthy (dget d ''ok'' (JBool (rtt \<noteq> None)))\<rparr>)))
      | _ \<Rightarrow> Inr None)"

definition validate_report :: "json \<Rightarrow> report res" where
  "validate_report obj =
     (case obj of
        JObj d \<Rightarrow>
          (let host = text_field d ''hostname'' in
           if host = [] then Inl (ValueError ''thieu hostname'')
           else
             let ipv4 = text_field d ''ipv4''; mac = text_field d ''mac'';
                 raw0 = py_or (dget d ''samples'' (JArr [])) (JArr []);
                 raw = (if is_obj raw0 then JArr [raw0] else raw0) in
             (case raw of
                JArr xs \<Rightarrow>
                  rbind (rmap validate_sample xs) (\<lambda>os.
                    Inr \<lparr>rep_hostname = host, rep_ipv4 = ipv4, rep_mac = mac, rep_samples = somes os\<rparr>)
              | _ \<Rightarrow> Inl (ValueError ''samples phai la list'')))
      | _ \<Rightarrow> Inl (ValueError ''report phai la object''))"

subsection \<open>What a checked report satisfies\<close>

definition wf_sample :: "sample \<Rightarrow> bool" where
  "wf_sample s = (clean (s_dst s) \<and> strip (s_dst_ip s) = s_dst_ip s \<and> strip (s_path s) = s_path s)"

definition wf_report :: "report \<Rightarrow> bool" where
  "wf_report r =
     (clean (rep_hostname r) \<and> strip (rep_ipv4 r) = rep_ipv4 r \<and> strip (rep_mac r) = rep_mac r
      \<and> list_all wf_sample (rep_samples r))"

lemma strip_text_field [simp]: "strip (text_field d k) = text_field d k"
  by (simp add: text_field_def)

lemma validate_sample_wf: "validate_sample s = Inr (Some x) \<Longrightarrow> wf_sample x"
  by (auto simp: validate_sample_def Let_def res_simps wf_sample_def clean_def
      split: json.splits if_splits)

lemma validate_report_cases:
  assumes "validate_report obj = Inr r"
  obtains d os xs where "obj = JObj d" "text_field d ''hostname'' \<noteq> []"
    "rmap validate_sample xs = Inr os"
    "xs = (case py_or (dget d ''samples'' (JArr [])) (JArr []) of JArr ys \<Rightarrow> ys | y \<Rightarrow> [y])"
    "r = \<lparr>rep_hostname = text_field d ''hostname'', rep_ipv4 = text_field d ''ipv4'',
          rep_mac = text_field d ''mac'', rep_samples = somes os\<rparr>"
  using assms
  by (auto simp: validate_report_def Let_def res_simps is_obj_def split: json.splits if_splits)

text \<open>C29: An accepted report is well formed: its hostname and the destination of every sample are
  non-empty and every text field is stripped.\<close>

theorem validate_report_wf:
  assumes "validate_report obj = Inr r"
  shows "wf_report r"
  using assms
proof (rule validate_report_cases)
  fix d os xs
  assume h: "text_field d ''hostname'' \<noteq> []" "rmap validate_sample xs = Inr os"
    "r = \<lparr>rep_hostname = text_field d ''hostname'', rep_ipv4 = text_field d ''ipv4'',
          rep_mac = text_field d ''mac'', rep_samples = somes os\<rparr>"
  have "wf_sample s" if "s \<in> set (somes os)" for s
    using that rmap_member [OF h(2), of "Some s"] validate_sample_wf by auto
  with h show ?thesis by (simp add: wf_report_def clean_def list_all_iff)
qed

definition sample_report :: json where
  "sample_report =
     JObj [(''hostname'', JStr '' itop ''), (''mac'', JStr ''AA:BB''),
       (''samples'', JObj [(''dst'', JStr ''votam''), (''rtt_ms'', JInt 9)])]"

lemma validate_sample_report:
  "validate_report sample_report = Inr \<lparr>rep_hostname = ''itop'', rep_ipv4 = [], rep_mac = ''AA:BB'',
     rep_samples = [\<lparr>s_dst = ''votam'', s_dst_ip = [], s_rtt = Some (Fin 9), s_path = [], s_ok = True\<rparr>]\<rparr>"
proof -
  have t: "strip '' itop '' = ''itop''" "strip ''AA:BB'' = ''AA:BB''" "strip ''votam'' = ''votam''"
    "strip '''' = ''''" by code_simp+
  then show ?thesis
    by (simp add: validate_report_def sample_report_def text_field_def dget_def py_or_def is_obj_def
        validate_sample_def sample_rtt_def float_of_int_def float_eval)
qed

theorem validate_report_wf_witness:
  "\<exists>r. validate_report sample_report = Inr r \<and> wf_report r"
  using validate_report_wf [OF validate_sample_report] validate_sample_report by blast

lemma validate_sample_error: "validate_sample s = Inl e \<Longrightarrow> e = OverflowError"
  by (auto simp: validate_sample_def sample_rtt_def Let_def res_simps elim!: py_float.elims
      split: json.splits if_splits sum.splits pyexn.splits pyfloat.splits option.splits)

lemma validate_samples_error: "rmap validate_sample xs = Inl e \<Longrightarrow> e = OverflowError"
  by (induction xs) (auto simp: res_simps dest: validate_sample_error)

definition is_arr :: "json \<Rightarrow> bool" where
  "is_arr x = (case x of JArr _ \<Rightarrow> True | _ \<Rightarrow> False)"



end
