(* ===== verification/Store.thy ===== *)
theory Store
  imports Report
begin

text \<open>
  The SQLite database of \<open>node-dedup/dedup.py\<close>: its three tables, the statements that write
  them (\<open>upsert_db\<close>, \<open>record_report\<close>, \<open>record_samples\<close>, \<open>record_netcheck\<close>) and the
  queries. A table is the list of its rows in rowid order; a float column stores NaN as NULL, as
  SQLite does. Python's cursor has \<open>rowcount\<close> -1 until it has executed a statement.
\<close>

subsection \<open>Tables\<close>

record device =
  dv_user :: string
  dv_hostname :: string
  dv_mac :: "string option"
  dv_node_id :: string
  dv_ipv4 :: string
  dv_machine_key :: string
  dv_first_seen :: int
  dv_last_seen :: int
  dv_seen_count :: int

record latency =
  lt_ts :: int
  lt_src :: string
  lt_dst :: string
  lt_dst_ip :: string
  lt_rtt :: "pyfloat option"
  lt_path :: string
  lt_ok :: bool

record netcheck =
  nc_ts :: int
  nc_client :: string
  nc_preferred :: string
  nc_latency :: string

record db =
  devices :: "device list"
  latencies :: "latency list"
  netchecks :: "netcheck list"

definition empty_db :: db where
  "empty_db = \<lparr>devices = [], latencies = [], netchecks = []\<rparr>"

text \<open>\<open>CREATE TABLE IF NOT EXISTS\<close>: an existing file keeps its rows.\<close>

definition init_tables :: "db option \<Rightarrow> db" where
  "init_tables file = (case file of None \<Rightarrow> empty_db | Some d \<Rightarrow> d)"

subsection \<open>Statements\<close>

text \<open>\<open>INSERT ... ON CONFLICT(key) DO UPDATE\<close>.\<close>

fun upsert :: "('r \<Rightarrow> 'k) \<Rightarrow> ('r \<Rightarrow> 'r \<Rightarrow> 'r) \<Rightarrow> 'r \<Rightarrow> 'r list \<Rightarrow> 'r list" where
  "upsert key merge r [] = [r]"
| "upsert key merge r (x # xs) =
     (if key x = key r then merge x r # xs else x # upsert key merge r xs)"

text \<open>\<open>UPDATE t SET ... WHERE p\<close>, with the number of rows it changed.\<close>

definition update_where :: "('r \<Rightarrow> bool) \<Rightarrow> ('r \<Rightarrow> 'r) \<Rightarrow> 'r list \<Rightarrow> 'r list \<times> int" where
  "update_where p f rows = (map (\<lambda>r. if p r then f r else r) rows, int (length (filter p rows)))"

definition dv_key :: "device \<Rightarrow> string \<times> string" where
  "dv_key d = (dv_user d, dv_hostname d)"

definition merge_device :: "device \<Rightarrow> device \<Rightarrow> device" where
  "merge_device old new =
     old\<lparr>dv_node_id := dv_node_id new, dv_ipv4 := dv_ipv4 new, dv_machine_key := dv_machine_key new,
         dv_last_seen := dv_last_seen new, dv_seen_count := dv_seen_count old + 1\<rparr>"

definition device_of :: "int \<Rightarrow> node \<Rightarrow> device" where
  "device_of now n =
     \<lparr>dv_user = user n, dv_hostname = hostname n, dv_mac = None, dv_node_id = node_id n,
      dv_ipv4 = first_ipv4 (ips n), dv_machine_key = machine_key n,
      dv_first_seen = now, dv_last_seen = now, dv_seen_count = 1\<rparr>"

definition upsert_node :: "int \<Rightarrow> node \<Rightarrow> device list \<Rightarrow> device list" where
  "upsert_node now n ds =
     (if hostname n = [] then ds else upsert dv_key merge_device (device_of now n) ds)"

definition upsert_db :: "int \<Rightarrow> node list \<Rightarrow> db \<Rightarrow> db" where
  "upsert_db now nodes d = d\<lparr>devices := fold (upsert_node now) nodes (devices d)\<rparr>"

definition real_column :: "pyfloat option \<Rightarrow> pyfloat option" where
  "real_column x = (if x = Some NaN then None else x)"

definition latency_row :: "int \<Rightarrow> string \<Rightarrow> sample \<Rightarrow> latency" where
  "latency_row now src s =
     \<lparr>lt_ts = now, lt_src = src, lt_dst = s_dst s, lt_dst_ip = s_dst_ip s,
      lt_rtt = real_column (s_rtt s), lt_path = s_path s, lt_ok = s_ok s\<rparr>"

definition record_samples :: "string \<Rightarrow> sample list \<Rightarrow> int \<Rightarrow> db \<Rightarrow> db \<times> nat" where
  "record_samples src samples now d =
     (d\<lparr>latencies := latencies d @ map (latency_row now src) samples\<rparr>, length samples)"

definition set_mac :: "string \<Rightarrow> device \<Rightarrow> device" where
  "set_mac m r = r\<lparr>dv_mac := Some m\<rparr>"

definition report_devices :: "report \<Rightarrow> device list \<Rightarrow> device list" where
  "report_devices rep ds =
     (if rep_mac rep = [] then ds
      else
        let (ds1, rowcount) =
              (if rep_ipv4 rep \<noteq> []
               then update_where (\<lambda>r. dv_ipv4 r = rep_ipv4 rep) (set_mac (rep_mac rep)) ds
               else (ds, - 1))
        in if rowcount = 0
           then fst (update_where (\<lambda>r. dv_hostname r = rep_hostname rep) (set_mac (rep_mac rep)) ds1)
           else ds1)"

definition record_report :: "report \<Rightarrow> int \<Rightarrow> db \<Rightarrow> db \<times> nat" where
  "record_report rep now d =
     (d\<lparr>devices := report_devices rep (devices d),
        latencies := latencies d @ map (latency_row now (rep_hostname rep)) (rep_samples rep)\<rparr>,
      length (rep_samples rep))"

definition record_netcheck :: "string \<Rightarrow> string \<Rightarrow> string \<Rightarrow> int \<Rightarrow> db \<Rightarrow> db" where
  "record_netcheck client preferred region_latency now d =
     d\<lparr>netchecks := netchecks d
        @ [\<lparr>nc_ts = now, nc_client = client, nc_preferred = preferred, nc_latency = region_latency\<rparr>]\<rparr>"

subsection \<open>Queries\<close>

text \<open>
  \<open>ORDER BY ts DESC LIMIT 10000\<close>; rows of the same second come newest rowid first, the order in
  which SQLite walks the index on \<open>ts\<close> backwards.
\<close>

definition query_latency :: "int \<Rightarrow> int \<Rightarrow> db \<Rightarrow> latency list" where
  "query_latency now window d =
     take 10000 (rev (sort_key lt_ts (filter (\<lambda>r. now - window \<le> lt_ts r) (latencies d))))"

definition query_devices :: "db \<Rightarrow> device list" where
  "query_devices d = sort_key dv_hostname (devices d)"

text \<open>
  The self join with \<open>SELECT k, MAX(ts) ... GROUP BY k\<close>: the rows whose time is the latest of
  their key, among the rows since \<open>since\<close>.
\<close>

definition is_latest :: "('r \<Rightarrow> 'k) \<Rightarrow> ('r \<Rightarrow> int) \<Rightarrow> int \<Rightarrow> 'r list \<Rightarrow> 'r \<Rightarrow> bool" where
  "is_latest key ts since rows r =
     (since \<le> ts r \<and> list_all (\<lambda>x. key x = key r \<longrightarrow> ts x \<le> ts r) rows)"

definition latest_rows :: "('r \<Rightarrow> 'k) \<Rightarrow> ('r \<Rightarrow> int) \<Rightarrow> int \<Rightarrow> 'r list \<Rightarrow> 'r list" where
  "latest_rows key ts since rows = filter (is_latest key ts since rows) rows"

record peer_ping =
  pp_hostname :: string
  pp_ip :: string
  pp_relay :: string
  pp_rtt :: "pyfloat option"
  pp_ok :: bool
  pp_ts :: int

definition peer_ping_of :: "latency \<Rightarrow> peer_ping" where
  "peer_ping_of r =
     \<lparr>pp_hostname = lt_dst r, pp_ip = lt_dst_ip r,
      pp_relay = (if lt_path r = [] then ''?'' else lt_path r),
      pp_rtt = lt_rtt r, pp_ok = lt_ok r, pp_ts = lt_ts r\<rparr>"

definition query_current_relay :: "string \<Rightarrow> int \<Rightarrow> int \<Rightarrow> db \<Rightarrow> peer_ping list" where
  "query_current_relay src_name now window d =
     (let mine = filter (\<lambda>r. lt_src r = src_name \<and> now - window \<le> lt_ts r) (latencies d);
          latest = filter (\<lambda>l. \<exists>r \<in> set mine. lt_dst r = lt_dst l \<and> lt_ts r = lt_ts l
             \<and> list_all (\<lambda>x. lt_dst x = lt_dst l \<longrightarrow> lt_ts x \<le> lt_ts l) mine) (latencies d)
      in map peer_ping_of (sort_key lt_dst latest))"

definition pair_key :: "latency \<Rightarrow> string \<times> string" where
  "pair_key r = (lt_src r, lt_dst r)"

definition query_all_server_pings :: "int \<Rightarrow> int \<Rightarrow> db \<Rightarrow> (string \<times> peer_ping list) list" where
  "query_all_server_pings now window d =
     (let rows = sort_key pair_key (latest_rows pair_key lt_ts (now - window) (latencies d))
      in map (\<lambda>(src, rs). (src, map peer_ping_of rs)) (group_by lt_src rows))"

definition query_latest_netcheck :: "int \<Rightarrow> int \<Rightarrow> db \<Rightarrow> netcheck list" where
  "query_latest_netcheck now window d =
     sort_key nc_client (latest_rows nc_client nc_ts (now - window) (netchecks d))"

subsection \<open>Keyed tables\<close>

definition row_of :: "('r \<Rightarrow> 'k) \<Rightarrow> 'r list \<Rightarrow> 'k \<Rightarrow> 'r option" where
  "row_of key t k = find (\<lambda>r. key r = k) t"

definition merge_opt :: "('r \<Rightarrow> 'r \<Rightarrow> 'r) \<Rightarrow> 'r option \<Rightarrow> 'r \<Rightarrow> 'r option" where
  "merge_opt merge old r = Some (case old of None \<Rightarrow> r | Some x \<Rightarrow> merge x r)"

text \<open>
  What the collector expects of a table with a primary key: writing a row changes the row of its
  key only, and adds the key at the end when it is new.
\<close>

locale keyed_table =
  fixes key :: "'r \<Rightarrow> 'k"
    and merge :: "'r \<Rightarrow> 'r \<Rightarrow> 'r"
    and put :: "'r \<Rightarrow> 'r list \<Rightarrow> 'r list"
  assumes put_keys: "map key (put r t) = add_new (key r) (map key t)"
    and put_row: "row_of key (put r t) k =
      (if k = key r then merge_opt merge (row_of key t k) r else row_of key t k)"
begin

lemma put_all_keys: "map key (fold put rs t) = add_all_new (map key rs) (map key t)"
  by (induction rs arbitrary: t) (simp_all add: put_keys)

lemma put_all_distinct: "distinct (map key t) \<Longrightarrow> distinct (map key (fold put rs t))"
  by (simp add: put_all_keys)

lemma put_all_row:
  "row_of key (fold put rs t) k =
   fold (\<lambda>r old. merge_opt merge old r) (filter (\<lambda>r. key r = k) rs) (row_of key t k)"
  by (induction rs arbitrary: t) (simp_all add: put_row)

lemma put_all_keeps_keys: "\<exists>ks. map key (fold put rs t) = map key t @ ks"
  using add_all_new_prefix put_all_keys by metis

end

lemma upsert_keys:
  assumes "\<And>x y. key (merge x y) = key x"
  shows "map key (upsert key merge r t) = add_new (key r) (map key t)"
  by (induction t) (auto simp: add_new_def assms)

lemma upsert_row:
  assumes "\<And>x y. key (merge x y) = key x"
  shows "row_of key (upsert key merge r t) k =
    (if k = key r then merge_opt merge (row_of key t k) r else row_of key t k)"
  by (induction t) (auto simp: row_of_def merge_opt_def assms)

lemma merge_device_key [simp]: "dv_key (merge_device x y) = dv_key x"
  by (simp add: merge_device_def dv_key_def)

interpretation dv: keyed_table dv_key merge_device "upsert dv_key merge_device"
  by unfold_locales (simp_all add: upsert_keys upsert_row)

definition named :: "node list \<Rightarrow> node list" where
  "named nodes = filter (\<lambda>n. hostname n \<noteq> []) nodes"

lemma fold_upsert_node:
  "fold (upsert_node now) nodes ds
   = fold (upsert dv_key merge_device) (map (device_of now) (named nodes)) ds"
  by (induction nodes arbitrary: ds) (simp_all add: named_def upsert_node_def)

lemma dv_key_device_of [simp]: "dv_key (device_of now n) = owner_key n"
  by (simp add: dv_key_def device_of_def owner_key_def)

lemma devices_upsert_db_row:
  "row_of dv_key (devices (upsert_db now nodes d)) k =
   fold (\<lambda>r old. merge_opt merge_device old r)
     (map (device_of now) (filter (\<lambda>n. owner_key n = k) (named nodes))) (row_of dv_key (devices d) k)"
proof -
  have "filter (\<lambda>r. dv_key r = k) (map (device_of now) xs)
      = map (device_of now) (filter (\<lambda>n. owner_key n = k) xs)" for xs
    by (simp add: filter_map comp_def)
  moreover have "devices (upsert_db now nodes d)
      = fold (upsert dv_key merge_device) (map (device_of now) (named nodes)) (devices d)"
    unfolding upsert_db_def fold_upsert_node by simp
  ultimately show ?thesis by (simp only: dv.put_all_row)
qed

text \<open>Merging the nodes of one device one after the other into its row.\<close>

definition merge_node :: "int \<Rightarrow> node \<Rightarrow> device option \<Rightarrow> device option" where
  "merge_node now n old = merge_opt merge_device old (device_of now n)"

definition seen_row :: "int \<Rightarrow> node \<Rightarrow> int \<Rightarrow> device option \<Rightarrow> device" where
  "seen_row now n c old =
     (case old of
        None \<Rightarrow> (device_of now n)\<lparr>dv_seen_count := c\<rparr>
      | Some r \<Rightarrow> r\<lparr>dv_node_id := node_id n, dv_ipv4 := first_ipv4 (ips n),
          dv_machine_key := machine_key n, dv_last_seen := now, dv_seen_count := dv_seen_count r + c\<rparr>)"

lemma merge_node_once: "merge_node now n old = Some (seen_row now n 1 old)"
  by (cases old) (simp_all add: merge_node_def merge_opt_def seen_row_def merge_device_def device_of_def)

lemma merge_node_again:
  "owner_key n = owner_key m \<Longrightarrow>
   merge_node now m (Some (seen_row now n c old)) = Some (seen_row now m (c + 1) old)"
  by (cases old)
    (simp_all add: merge_node_def merge_opt_def seen_row_def merge_device_def device_of_def owner_key_def)

lemma fold_merge_node:
  "\<forall>n \<in> set (ns @ [m]). owner_key n = k \<Longrightarrow>
   fold (merge_node now) (ns @ [m]) old = Some (seen_row now m (1 + int (length ns)) old)"
proof (induction ns arbitrary: m rule: rev_induct)
  case Nil
  then show ?case by (simp add: merge_node_once)
next
  case (snoc n ns)
  have "fold (merge_node now) (ns @ [n]) old = Some (seen_row now n (1 + int (length ns)) old)"
    using snoc by simp
  moreover have "owner_key n = owner_key m" using snoc.prems by simp
  ultimately show ?case using merge_node_again [of n m now "1 + int (length ns)" old]
    by (simp add: add.commute)
qed

lemma devices_upsert_db_merge:
  "row_of dv_key (devices (upsert_db now nodes d)) k =
   fold (merge_node now) (filter (\<lambda>n. owner_key n = k) (named nodes)) (row_of dv_key (devices d) k)"
proof -
  have "fold (\<lambda>r old. merge_opt merge_device old r) (map (device_of now) ns) old
      = fold (merge_node now) ns old" for ns old
    by (induction ns arbitrary: old) (simp_all add: merge_node_def)
  then show ?thesis by (simp only: devices_upsert_db_row)
qed

text \<open>C8: A poll round leaves the row of a device that was not listed as it was; for a listed one it
  takes id, address and machine key from the last node of that user and hostname, counts every
  such node, and keeps the MAC and the first-seen time of an existing row.\<close>

theorem upsert_db_row:
  assumes "h \<noteq> []"
  shows "row_of dv_key (devices (upsert_db now nodes d)) (u, h) =
    (let ns = filter (\<lambda>n. user n = u \<and> hostname n = h) nodes;
         old = row_of dv_key (devices d) (u, h)
     in if ns = [] then old
        else Some \<lparr>dv_user = (case old of None \<Rightarrow> u | Some r \<Rightarrow> dv_user r),
               dv_hostname = (case old of None \<Rightarrow> h | Some r \<Rightarrow> dv_hostname r),
               dv_mac = (case old of None \<Rightarrow> None | Some r \<Rightarrow> dv_mac r),
               dv_node_id = node_id (last ns), dv_ipv4 = first_ipv4 (ips (last ns)),
               dv_machine_key = machine_key (last ns),
               dv_first_seen = (case old of None \<Rightarrow> now | Some r \<Rightarrow> dv_first_seen r),
               dv_last_seen = now,
               dv_seen_count = (case old of None \<Rightarrow> 0 | Some r \<Rightarrow> dv_seen_count r) + int (length ns)\<rparr>)"
proof -
  let ?ns = "filter (\<lambda>n. user n = u \<and> hostname n = h) nodes"
  have ns: "filter (\<lambda>n. owner_key n = (u, h)) (named nodes) = ?ns"
    using assms by (auto simp: named_def owner_key_def intro: filter_cong)
  show ?thesis
  proof (cases "?ns = []")
    case True
    then show ?thesis using ns by (simp add: devices_upsert_db_merge)
  next
    case False
    then obtain xs m where xs: "?ns = xs @ [m]" by (cases ?ns rule: rev_cases) auto
    have "\<forall>n \<in> set (xs @ [m]). owner_key n = (u, h)"
      unfolding xs [symmetric] by (simp add: owner_key_def)
    moreover from this have "user m = u" "hostname m = h" by (simp_all add: owner_key_def)
    ultimately show ?thesis
      using fold_merge_node [of xs m "(u, h)" now "row_of dv_key (devices d) (u, h)"] ns xs
      by (simp add: devices_upsert_db_merge seen_row_def device_of_def split: option.split)
  qed
qed

definition itop_db :: db where
  "itop_db = empty_db\<lparr>devices := [\<lparr>dv_user = ''u'', dv_hostname = ''itop'', dv_mac = Some ''AA'',
     dv_node_id = ''1'', dv_ipv4 = ''100.64.0.9'', dv_machine_key = ''mk'', dv_first_seen = 5,
     dv_last_seen = 6, dv_seen_count = 2\<rparr>]\<rparr>"

theorem upsert_db_row_witness:
  "map_option (\<lambda>r. (dv_mac r, dv_node_id r, dv_first_seen r, dv_seen_count r))
     (row_of dv_key (devices (upsert_db 90 sample_nodes itop_db)) (''u'', ''itop''))
   = Some (Some ''AA'', ''15'', 5, 4)"
  using upsert_db_row [of "''itop''" 90 sample_nodes itop_db "''u''"]
  by (simp add: itop_db_def empty_db_def sample_nodes_def row_of_def dv_key_def Let_def)

subsection \<open>MAC addresses\<close>

text \<open>A report's MAC goes to the devices with its address; to the devices with its hostname only
  when an address was given and no device has it; and to nobody when the report names no address,
  because the cursor's \<open>rowcount\<close> is then still -1.\<close>

theorem report_mac_rules:
  "report_devices rep ds =
     (if rep_mac rep = [] \<or> rep_ipv4 rep = [] then ds
      else if \<exists>r. r \<in> set ds \<and> dv_ipv4 r = rep_ipv4 rep
      then map (\<lambda>r. if dv_ipv4 r = rep_ipv4 rep then set_mac (rep_mac rep) r else r) ds
      else map (\<lambda>r. if dv_hostname r = rep_hostname rep then set_mac (rep_mac rep) r else r) ds)"
proof -
  have "length (filter (\<lambda>r. dv_ipv4 r = rep_ipv4 rep) ds) = 0 \<longleftrightarrow>
      \<not> (\<exists>r. r \<in> set ds \<and> dv_ipv4 r = rep_ipv4 rep)"
    by (auto simp: filter_empty_conv)
  moreover have "map (\<lambda>r. if dv_ipv4 r = rep_ipv4 rep then set_mac (rep_mac rep) r else r) ds = ds"
    if "\<not> (\<exists>r. r \<in> set ds \<and> dv_ipv4 r = rep_ipv4 rep)"
    using that by (auto intro: map_idI)
  ultimately show ?thesis
    by (auto simp: report_devices_def update_where_def simp del: length_0_conv)
qed

subsection \<open>The database over time\<close>

text \<open>
  The poll loop and the HTTP threads take the lock for one write at a time, so a history is a
  sequence of these steps, in any order, on the clock and the database. A report is written only
  after \<open>validate_report\<close> accepted it, a netcheck only for a client name the handler accepted.
\<close>

inductive db_step :: "int \<times> db \<Rightarrow> int \<times> db \<Rightarrow> bool" where
  tick: "t \<le> t' \<Longrightarrow> db_step (t, d) (t', d)"
| poll: "db_step (t, d) (t, upsert_db t nodes d)"
| pings: "server_ping_all src nodes f = Inr ss \<Longrightarrow> db_step (t, d) (t, fst (record_samples src ss t d))"
| reported: "validate_report j = Inr rep \<Longrightarrow> db_step (t, d) (t, fst (record_report rep t d))"
| netchecked: "clean client \<Longrightarrow> db_step (t, d) (t, record_netcheck client pref lat t d)"

inductive db_reachable :: "int \<times> db \<Rightarrow> bool" where
  start: "db_reachable (t, init_tables None)"
| step: "db_reachable s \<Longrightarrow> db_step s s' \<Longrightarrow> db_reachable s'"

inductive_cases db_stepE: "db_step (t, d) s'"

definition wf_device :: "int \<Rightarrow> device \<Rightarrow> bool" where
  "wf_device t r =
     (dv_hostname r \<noteq> [] \<and> 1 \<le> dv_seen_count r \<and> dv_first_seen r \<le> dv_last_seen r \<and> dv_last_seen r \<le> t)"

definition wf_db :: "int \<Rightarrow> db \<Rightarrow> bool" where
  "wf_db t d =
     (distinct (map dv_key (devices d)) \<and> list_all (wf_device t) (devices d)
      \<and> list_all (\<lambda>r. lt_ts r \<le> t \<and> lt_rtt r \<noteq> Some NaN) (latencies d)
      \<and> list_all (\<lambda>r. nc_ts r \<le> t \<and> clean (nc_client r)) (netchecks d))"

lemma wf_device_mono: "wf_device t r \<Longrightarrow> t \<le> t' \<Longrightarrow> wf_device t' r"
  by (simp add: wf_device_def)

lemma wf_upsert:
  "list_all (wf_device t) ds \<Longrightarrow> hostname n \<noteq> [] \<Longrightarrow>
   list_all (wf_device t) (upsert dv_key merge_device (device_of t n) ds)"
  by (induction ds) (auto simp: wf_device_def device_of_def merge_device_def)

lemma wf_fold_upsert:
  "list_all (wf_device t) ds \<Longrightarrow> list_all (wf_device t) (fold (upsert_node t) nodes ds)"
  by (induction nodes arbitrary: ds) (simp_all add: upsert_node_def wf_upsert)

lemma upsert_db_distinct:
  "distinct (map dv_key (devices d)) \<Longrightarrow> distinct (map dv_key (devices (upsert_db t nodes d)))"
  unfolding upsert_db_def fold_upsert_node by (simp add: dv.put_all_distinct del: fold_map)

lemma latency_row_wf: "lt_ts (latency_row t src s) \<le> t \<and> lt_rtt (latency_row t src s) \<noteq> Some NaN"
  by (simp add: latency_row_def real_column_def)

lemma report_devices_keys: "map dv_key (report_devices rep ds) = map dv_key ds"
  by (auto simp: report_devices_def update_where_def set_mac_def dv_key_def Let_def)

lemma wf_device_set_mac [simp]: "wf_device t (set_mac m r) = wf_device t r"
  by (simp add: wf_device_def set_mac_def)

lemma report_devices_wf: "list_all (wf_device t) ds \<Longrightarrow> list_all (wf_device t) (report_devices rep ds)"
  by (auto simp: report_devices_def update_where_def list_all_iff Let_def)

lemma db_step_wf:
  assumes "db_step s s'" and "wf_db (fst s) (snd s)"
  shows "wf_db (fst s') (snd s')"
  using assms
proof (induction rule: db_step.induct)
  case (tick t t' d)
  then show ?case by (fastforce simp: wf_db_def list_all_iff intro: wf_device_mono)
next
  case (poll t d nodes)
  have "latencies (upsert_db t nodes d) = latencies d" "netchecks (upsert_db t nodes d) = netchecks d"
    "devices (upsert_db t nodes d) = fold (upsert_node t) nodes (devices d)"
    by (simp_all add: upsert_db_def)
  with poll show ?case
    using upsert_db_distinct [of d t nodes] wf_fold_upsert [of t "devices d" nodes] by (simp add: wf_db_def)
next
  case (pings src nodes f ss t d)
  then show ?case by (auto simp: wf_db_def record_samples_def list_all_iff latency_row_wf)
next
  case (reported j rep t d)
  then show ?case
    using report_devices_wf [of t "devices d" rep]
    by (auto simp: wf_db_def record_report_def list_all_iff latency_row_wf report_devices_keys)
next
  case (netchecked client t d pref lat)
  then show ?case by (simp add: wf_db_def record_netcheck_def)
qed

lemma db_reachable_steps: "db_step\<^sup>*\<^sup>* s s' \<Longrightarrow> db_reachable s \<Longrightarrow> db_reachable s'"
  by (induction rule: rtranclp_induct) (auto intro: db_reachable.step)

lemma reachable_wf: "db_reachable s \<Longrightarrow> wf_db (fst s) (snd s)"
proof (induction rule: db_reachable.induct)
  case (start t)
  then show ?case by (simp add: wf_db_def init_tables_def empty_db_def)
next
  case (step s s')
  then show ?case by (blast intro: db_step_wf)
qed

text \<open>C7: In every database the program can reach, in whatever order the poll loop and the HTTP
  threads write, there is one row per user and hostname, no device has an empty hostname, each was
  seen at least once and first no later than last, no stored time lies in the future, and no
  round-trip time is NaN.\<close>

theorem reachable_db_invariant:
  assumes "db_reachable (t, d)"
  shows "distinct (map dv_key (devices d))
    \<and> list_all (\<lambda>r. dv_hostname r \<noteq> [] \<and> 1 \<le> dv_seen_count r
        \<and> dv_first_seen r \<le> dv_last_seen r \<and> dv_last_seen r \<le> t) (devices d)
    \<and> list_all (\<lambda>r. lt_ts r \<le> t \<and> lt_rtt r \<noteq> Some NaN) (latencies d)
    \<and> list_all (\<lambda>r. nc_ts r \<le> t \<and> nc_client r \<noteq> []) (netchecks d)"
  using reachable_wf [OF assms] by (auto simp: wf_db_def wf_device_def clean_def list_all_iff)

theorem reachable_db_invariant_witness:
  "distinct (map dv_key (devices (upsert_db 7 sample_nodes (init_tables None))))"
proof -
  have "db_reachable (7, upsert_db 7 sample_nodes (init_tables None))"
    by (rule db_reachable.step [OF db_reachable.start db_step.poll])
  from reachable_db_invariant [OF this] show ?thesis by simp
qed

text \<open>History is only ever extended: along any sequence of writes no latency sample and no netcheck
  row is lost or changed, no device disappears, and a device's first-seen time never changes.\<close>

theorem db_history_grows:
  assumes "db_step\<^sup>*\<^sup>* s s'"
  shows "(\<exists>ls. latencies (snd s') = latencies (snd s) @ ls)
    \<and> (\<exists>ns. netchecks (snd s') = netchecks (snd s) @ ns)
    \<and> (\<exists>ks. map dv_key (devices (snd s')) = map dv_key (devices (snd s)) @ ks)
    \<and> (\<exists>ts. map dv_first_seen (devices (snd s')) = map dv_first_seen (devices (snd s)) @ ts)"
  using assms
proof (induction rule: rtranclp_induct)
  case base
  then show ?case by simp
next
  case (step s1 s2)
  have first: "\<exists>ts. map dv_first_seen (upsert dv_key merge_device r ds) = map dv_first_seen ds @ ts" for r ds
    by (induction ds) (auto simp: merge_device_def)
  have up: "\<exists>ts. map dv_first_seen (fold (upsert_node t) nodes ds) = map dv_first_seen ds @ ts" for t nodes ds
  proof (induction nodes arbitrary: ds)
    case (Cons n nodes)
    from Cons.IH [of "upsert_node t n ds"] first [of "device_of t n" ds] show ?case
      by (auto simp: upsert_node_def)
  qed simp
  have "(\<exists>ls. latencies (snd s2) = latencies (snd s1) @ ls)
    \<and> (\<exists>ns. netchecks (snd s2) = netchecks (snd s1) @ ns)
    \<and> (\<exists>ks. map dv_key (devices (snd s2)) = map dv_key (devices (snd s1)) @ ks)
    \<and> (\<exists>ts. map dv_first_seen (devices (snd s2)) = map dv_first_seen (devices (snd s1)) @ ts)"
    using step.hyps(2)
  proof (induction rule: db_step.induct)
    case (poll t d nodes)
    have "devices (upsert_db t nodes d) = fold (upsert_node t) nodes (devices d)"
      by (simp add: upsert_db_def)
    then show ?case
      using up [of t nodes "devices d"] dv.put_all_keeps_keys [of "map (device_of t) (named nodes)" "devices d"]
        fold_upsert_node [of t nodes "devices d"] by (simp add: upsert_db_def)
  next
    case (reported j rep t d)
    have "map dv_first_seen (report_devices rep ds) = map dv_first_seen ds" for ds
      by (auto simp: report_devices_def update_where_def set_mac_def Let_def)
    then show ?case by (simp add: record_report_def report_devices_keys)
  qed (simp_all add: record_samples_def record_netcheck_def)
  with step.IH show ?case by (metis append.assoc)
qed

theorem db_history_grows_witness:
  "\<exists>ks. map dv_key (devices (upsert_db 7 sample_nodes itop_db)) = map dv_key (devices itop_db) @ ks"
proof -
  have "db_step\<^sup>*\<^sup>* (7, itop_db) (7, upsert_db 7 sample_nodes itop_db)"
    by (rule r_into_rtranclp) (rule db_step.poll)
  from db_history_grows [OF this] show ?thesis by simp
qed

subsection \<open>Latest rows of a group\<close>

lemma in_latest_rows:
  "r \<in> set (latest_rows key ts since rows) \<longleftrightarrow>
   r \<in> set rows \<and> since \<le> ts r \<and> (\<forall>x \<in> set rows. key x = key r \<longrightarrow> ts x \<le> ts r)"
  by (auto simp: latest_rows_def is_latest_def list_all_iff)

lemma latest_exists:
  assumes "r \<in> set rows" "since \<le> ts r"
  shows "\<exists>m \<in> set (latest_rows key ts since rows). key m = key r"
proof -
  let ?g = "filter (\<lambda>x. key x = key r) rows"
  have g: "r \<in> set ?g" using assms by simp
  then have "?g \<noteq> []" by (metis empty_iff list.set(1))
  then have "max_key ts ?g \<in> set ?g" by (rule max_key_in)
  moreover have "ts x \<le> ts (max_key ts ?g)" if "x \<in> set ?g" for x using that by (rule max_key_ge)
  ultimately show ?thesis using g assms unfolding in_latest_rows
    by (intro bexI [of _ "max_key ts ?g"]) (auto simp: in_latest_rows intro: order_trans)
qed

lemma latest_keys: "key ` set (latest_rows key ts since rows) = key ` {r \<in> set rows. since \<le> ts r}"
proof
  show "key ` set (latest_rows key ts since rows) \<subseteq> key ` {r \<in> set rows. since \<le> ts r}"
    by (auto simp: in_latest_rows)
  show "key ` {r \<in> set rows. since \<le> ts r} \<subseteq> key ` set (latest_rows key ts since rows)"
  proof
    fix k assume "k \<in> key ` {r \<in> set rows. since \<le> ts r}"
    then obtain r where "r \<in> set rows" "since \<le> ts r" "k = key r" by blast
    then show "k \<in> key ` set (latest_rows key ts since rows)"
      using latest_exists [of r rows since ts key] by (metis imageI)
  qed
qed

text \<open>The netcheck view answers exactly the rows of the window that are the newest of their client,
  in order of client, and every client that reported in the window is there.\<close>

theorem latest_netcheck_view:
  "set (query_latest_netcheck now w d) =
     {r \<in> set (netchecks d). now - w \<le> nc_ts r
        \<and> list_all (\<lambda>x. nc_client x \<noteq> nc_client r \<or> nc_ts x \<le> nc_ts r) (netchecks d)}
   \<and> sorted (map nc_client (query_latest_netcheck now w d))
   \<and> nc_client ` set (query_latest_netcheck now w d) = nc_client ` {r \<in> set (netchecks d). now - w \<le> nc_ts r}"
  unfolding query_latest_netcheck_def set_sort latest_keys
  by (auto simp: in_latest_rows list_all_iff)

lemma hostname_peer_ping_of: "pp_hostname \<circ> peer_ping_of = lt_dst"
  by (simp add: fun_eq_iff peer_ping_of_def)

lemma sorted_filter_snd:
  assumes "sorted (map pair_key rows)"
  shows "sorted (map lt_dst (filter (\<lambda>r. lt_src r = s) rows))"
  using assms
proof (induction rows)
  case (Cons r rows)
  have "lt_dst r \<le> lt_dst x" if "x \<in> set rows" "lt_src x = lt_src r" for x
    using Cons.prems that by (force simp: pair_key_def less_eq_prod_def)
  with Cons show ?case by auto
qed simp

text \<open>The per-server view has an entry for exactly the sources with a row in the window; an entry is
  not empty, sorted by destination, and holds exactly the newest rows of each of its pairs, so
  several rows of a pair when they share the newest second.\<close>

theorem all_server_pings_view:
  "fst ` set (query_all_server_pings now w d) = lt_src ` {r \<in> set (latencies d). now - w \<le> lt_ts r}
   \<and> distinct (map fst (query_all_server_pings now w d))
   \<and> list_all (\<lambda>(s, ps). ps \<noteq> [] \<and> sorted (map pp_hostname ps)
        \<and> set ps = peer_ping_of ` {r \<in> set (latencies d). lt_src r = s \<and> now - w \<le> lt_ts r
            \<and> list_all (\<lambda>x. pair_key x \<noteq> pair_key r \<or> lt_ts x \<le> lt_ts r) (latencies d)})
      (query_all_server_pings now w d)"
proof (intro conjI)
  let ?l = "latest_rows pair_key lt_ts (now - w) (latencies d)"
  let ?q = "query_all_server_pings now w d"
  have q: "?q = map (\<lambda>(src, rs). (src, map peer_ping_of rs)) (group_by lt_src (sort_key pair_key ?l))"
    by (simp add: query_all_server_pings_def Let_def)
  then have k: "map fst ?q = map fst (group_by lt_src (sort_key pair_key ?l))" by auto
  then show "distinct (map fst ?q)" by simp
  have "fst ` set ?q = lt_src ` set ?l"
    using k by (metis fst_set_group_by list.set_map set_sort)
  also have "\<dots> = fst ` pair_key ` set ?l" by (simp add: image_image pair_key_def)
  also have "\<dots> = fst ` pair_key ` {r \<in> set (latencies d). now - w \<le> lt_ts r}"
    by (simp only: latest_keys)
  also have "\<dots> = lt_src ` {r \<in> set (latencies d). now - w \<le> lt_ts r}"
    by (simp add: image_image pair_key_def)
  finally show "fst ` set ?q = lt_src ` {r \<in> set (latencies d). now - w \<le> lt_ts r}" .
  have "ps \<noteq> [] \<and> sorted (map pp_hostname ps)
        \<and> set ps = peer_ping_of ` {r \<in> set (latencies d). lt_src r = s \<and> now - w \<le> lt_ts r
            \<and> list_all (\<lambda>x. pair_key x \<noteq> pair_key r \<or> lt_ts x \<le> lt_ts r) (latencies d)}"
    if "(s, ps) \<in> set ?q" for s ps
  proof -
    from that obtain rs where rs: "(s, rs) \<in> set (group_by lt_src (sort_key pair_key ?l))"
      and ps: "ps = map peer_ping_of rs" unfolding q by auto
    have "map pp_hostname ps = map lt_dst rs" by (simp add: ps hostname_peer_ping_of)
    moreover have r: "rs = filter (\<lambda>r. lt_src r = s) (sort_key pair_key ?l)"
      using rs by (rule group_by_entry)
    ultimately have "sorted (map pp_hostname ps)" by (simp add: sorted_filter_snd)
    moreover have "set rs = {r \<in> set (latencies d). lt_src r = s \<and> now - w \<le> lt_ts r
            \<and> list_all (\<lambda>x. pair_key x \<noteq> pair_key r \<or> lt_ts x \<le> lt_ts r) (latencies d)}"
      by (auto simp: r in_latest_rows list_all_iff)
    ultimately show ?thesis using group_by_nonempty [OF rs] by (simp add: ps)
  qed
  then show "list_all (\<lambda>(s, ps). ps \<noteq> [] \<and> sorted (map pp_hostname ps)
        \<and> set ps = peer_ping_of ` {r \<in> set (latencies d). lt_src r = s \<and> now - w \<le> lt_ts r
            \<and> list_all (\<lambda>x. pair_key x \<noteq> pair_key r \<or> lt_ts x \<le> lt_ts r) (latencies d)}) ?q"
    by (auto simp: list_all_iff)
qed

text \<open>The current-relay view shows, for each destination the named source pinged in the window, the
  rows with the time of that source's newest ping: the source's own newest rows are among them,
  and so is every row of another source with the same destination and second.\<close>

theorem current_relay_view:
  "set (query_current_relay src now w d) =
     peer_ping_of ` {l \<in> set (latencies d).
       \<exists>r. r \<in> set (latencies d) \<and> lt_src r = src \<and> now - w \<le> lt_ts r
         \<and> lt_dst r = lt_dst l \<and> lt_ts r = lt_ts l
         \<and> list_all (\<lambda>x. lt_src x \<noteq> src \<or> lt_dst x \<noteq> lt_dst l \<or> lt_ts x \<le> lt_ts l) (latencies d)}
   \<and> sorted (map pp_hostname (query_current_relay src now w d))"
proof
  show "sorted (map pp_hostname (query_current_relay src now w d))"
    by (simp add: query_current_relay_def Let_def hostname_peer_ping_of)
  let ?A = "\<lambda>l. \<exists>r \<in> set (filter (\<lambda>r. lt_src r = src \<and> now - w \<le> lt_ts r) (latencies d)).
       lt_dst r = lt_dst l \<and> lt_ts r = lt_ts l
       \<and> list_all (\<lambda>x. lt_dst x = lt_dst l \<longrightarrow> lt_ts x \<le> lt_ts l)
           (filter (\<lambda>r. lt_src r = src \<and> now - w \<le> lt_ts r) (latencies d))"
  let ?B = "\<lambda>l. \<exists>r. r \<in> set (latencies d) \<and> lt_src r = src \<and> now - w \<le> lt_ts r
       \<and> lt_dst r = lt_dst l \<and> lt_ts r = lt_ts l
       \<and> list_all (\<lambda>x. lt_src x \<noteq> src \<or> lt_dst x \<noteq> lt_dst l \<or> lt_ts x \<le> lt_ts l) (latencies d)"
  have AB: "?A l \<longleftrightarrow> ?B l" for l
  proof -
    have "list_all (\<lambda>x. lt_dst x = lt_dst l \<longrightarrow> lt_ts x \<le> lt_ts l)
           (filter (\<lambda>r. lt_src r = src \<and> now - w \<le> lt_ts r) (latencies d))
        \<longleftrightarrow> list_all (\<lambda>x. lt_src x \<noteq> src \<or> lt_dst x \<noteq> lt_dst l \<or> lt_ts x \<le> lt_ts l) (latencies d)"
      if "now - w \<le> lt_ts l"
      using that by (auto simp: list_all_iff)
    then show ?thesis unfolding Bex_def set_filter mem_Collect_eq by (intro ex_cong1) auto
  qed
  have "set (query_current_relay src now w d) = peer_ping_of ` {l \<in> set (latencies d). ?A l}"
    unfolding query_current_relay_def Let_def set_map set_sort set_filter ..
  then show "set (query_current_relay src now w d) = peer_ping_of ` {l \<in> set (latencies d). ?B l}"
    unfolding AB .
qed

definition mixed_db :: db where
  "mixed_db = empty_db\<lparr>latencies :=
     [\<lparr>lt_ts = 90, lt_src = ''collector'', lt_dst = ''b'', lt_dst_ip = [], lt_rtt = Some (Fin 3),
       lt_path = ''direct'', lt_ok = True\<rparr>,
      \<lparr>lt_ts = 90, lt_src = ''vpn3'', lt_dst = ''b'', lt_dst_ip = [], lt_rtt = None,
       lt_path = [], lt_ok = False\<rparr>]\<rparr>"

theorem current_relay_view_witness:
  "\<exists>p. p \<in> set (query_current_relay ''collector'' 100 180 mixed_db) \<and> \<not> pp_ok p"
proof -
  have "peer_ping_of (latencies mixed_db ! 1) \<in> set (query_current_relay ''collector'' 100 180 mixed_db)"
    unfolding current_relay_view [THEN conjunct1]
    by (intro imageI CollectI conjI exI [of _ "latencies mixed_db ! 0"]) (simp_all add: mixed_db_def)
  then show ?thesis by (intro exI conjI) (assumption, simp add: mixed_db_def peer_ping_of_def)
qed

theorem all_server_pings_view_witness:
  "fst ` set (query_all_server_pings 100 180 mixed_db) = {''collector'', ''vpn3''}"
proof -
  have "{r \<in> set (latencies mixed_db). 100 - 180 \<le> lt_ts r} = set (latencies mixed_db)"
    by (auto simp: mixed_db_def)
  then show ?thesis unfolding all_server_pings_view [THEN conjunct1] by (simp add: mixed_db_def)
qed

end
