(* ===== verification/Stats.thy ===== *)
theory Stats
  imports Store "HOL-Library.Sublist"
begin

text \<open>
  What the collector computes from latency rows: \<open>aggregate_latency\<close>, \<open>stale_reporters\<close> and
  \<open>latency_series\<close> of \<open>node-dedup/dedup.py\<close>, over the rows \<open>query_latency\<close> returns. Round-trip
  times and percentages are doubles, summed and rounded as CPython does (theory \<open>PyFloat\<close>).
\<close>

subsection \<open>aggregate_latency\<close>

record pair_stat =
  ps_src :: string
  ps_dst :: string
  ps_count :: nat
  ps_min :: "pyfloat option"
  ps_avg :: "pyfloat option"
  ps_max :: "pyfloat option"
  ps_ok_pct :: pyfloat
  ps_direct_pct :: pyfloat
  ps_last_ms :: "pyfloat option"
  ps_last_path :: string
  ps_last_ts :: int

text \<open>\<open>round(100.0 * k / n, 1) if n else 0.0\<close>.\<close>

definition percent :: "nat \<Rightarrow> nat \<Rightarrow> pyfloat" where
  "percent k n =
     (if n = 0 then Fin 0 else round1 (fdiv_pos (fmul_pos (float_of_int (int k)) 100) (of_nat n)))"

definition ok_rtts :: "latency list \<Rightarrow> pyfloat list" where
  "ok_rtts g = somes (map (\<lambda>x. if lt_ok x then lt_rtt x else None) g)"

definition float_mean :: "pyfloat list \<Rightarrow> pyfloat" where
  "float_mean xs = fdiv_pos (float_sum xs) (of_nat (length xs))"

definition rtt_stat :: "(pyfloat list \<Rightarrow> pyfloat) \<Rightarrow> pyfloat list \<Rightarrow> pyfloat option" where
  "rtt_stat f rtts = (if rtts = [] then None else Some (round1 (f rtts)))"

definition is_direct :: "latency \<Rightarrow> bool" where
  "is_direct x = starts_with ''direct'' (lower (lt_path x))"

definition stat_of :: "(string \<times> string) \<times> latency list \<Rightarrow> pair_stat" where
  "stat_of e =
     (case e of ((src, dst), g) \<Rightarrow>
       let rtts = ok_rtts g; latest = max_key lt_ts g;
           direct = length (filter is_direct g); oks = length (filter lt_ok g)
       in \<lparr>ps_src = src, ps_dst = dst, ps_count = length g,
           ps_min = rtt_stat float_min rtts, ps_avg = rtt_stat float_mean rtts,
           ps_max = rtt_stat float_max rtts,
           ps_ok_pct = percent oks (length g), ps_direct_pct = percent direct (length g),
           ps_last_ms = lt_rtt latest, ps_last_path = lt_path latest, ps_last_ts = lt_ts latest\<rparr>)"

definition aggregate_latency :: "latency list \<Rightarrow> pair_stat list" where
  "aggregate_latency rows = map stat_of (sort_key fst (group_by pair_key rows))"

subsection \<open>stale_reporters\<close>

definition stale_reporters :: "latency list \<Rightarrow> string list \<Rightarrow> int \<Rightarrow> int \<Rightarrow> string list" where
  "stale_reporters rows expected now window =
     (let cutoff = now - window; fresh = lt_src ` set (filter (\<lambda>r. cutoff \<le> lt_ts r) rows)
      in filter (\<lambda>s. s \<notin> fresh) expected)"

subsection \<open>latency_series\<close>

type_synonym points = "(int \<times> pyfloat) list"

definition series_key :: "latency \<Rightarrow> string" where
  "series_key r = lt_src r @ '' -> '' @ lt_dst r"

text \<open>The rows that become points, with their key: \<open>ok\<close> and with a round-trip time.\<close>

definition series_points :: "latency list \<Rightarrow> (string \<times> int \<times> pyfloat) list" where
  "series_points rows =
     somes (map (\<lambda>r. if lt_ok r then map_option (\<lambda>x. (series_key r, lt_ts r, x)) (lt_rtt r) else None) rows)"

definition latency_series :: "latency list \<Rightarrow> (string \<times> points) list" where
  "latency_series rows =
     map (\<lambda>(k, g). (k, sort_key fst (map snd g))) (sort_key fst (group_by fst (series_points rows)))"

subsection \<open>Facts about the rows\<close>

lemma set_query_latency:
  "r \<in> set (query_latency now w d) \<Longrightarrow> r \<in> set (latencies d) \<and> now - w \<le> lt_ts r"
  by (auto simp: query_latency_def dest: in_set_takeD)

lemma length_query_latency: "length (query_latency now w d) \<le> 10000"
  by (simp add: query_latency_def)

lemma newest_first: "sorted_wrt (\<lambda>x y. f y \<le> f x) (rev (sort_key f xs))"
  using sorted_sort_key [of f xs] by (simp add: sorted_wrt_rev sorted_map)

lemma sorted_query_latency: "sorted_wrt (\<lambda>x y. lt_ts y \<le> lt_ts x) (query_latency now w d)"
  unfolding query_latency_def by (rule sorted_wrt_take) (rule newest_first)

text \<open>The latency query returns rows of the window, newest first, at most 10000 of them; it drops a
  row of the window only when it already returns 10000 that are at least as new.\<close>

theorem query_latency_newest:
  "set (query_latency now w d) \<subseteq> {r \<in> set (latencies d). now - w \<le> lt_ts r}
   \<and> sorted_wrt (\<lambda>x y. lt_ts y \<le> lt_ts x) (query_latency now w d)
   \<and> length (query_latency now w d) = min 10000 (length (filter (\<lambda>r. now - w \<le> lt_ts r) (latencies d)))
   \<and> (\<forall>r r'. r' \<in> {x \<in> set (latencies d). now - w \<le> lt_ts x} - set (query_latency now w d) \<longrightarrow>
        r \<in> set (query_latency now w d) \<longrightarrow> lt_ts r' \<le> lt_ts r)"
proof -
  let ?s = "rev (sort_key lt_ts (filter (\<lambda>r. now - w \<le> lt_ts r) (latencies d)))"
  let ?n = "10000 :: nat"
  have q: "query_latency now w d = take ?n ?s" by (simp only: query_latency_def)
  have split: "take ?n ?s @ drop ?n ?s = ?s" by (rule append_take_drop_id)
  have "lt_ts r' \<le> lt_ts r"
    if "r' \<in> set ?s" "r' \<notin> set (take ?n ?s)" "r \<in> set (take ?n ?s)" for r r'
  proof -
    have "r' \<in> set (drop ?n ?s)" using that(1,2) by (metis split Un_iff set_append)
    moreover have "sorted_wrt (\<lambda>x y. lt_ts y \<le> lt_ts x) (take ?n ?s @ drop ?n ?s)"
      unfolding split by (rule newest_first)
    ultimately show ?thesis using that(3) unfolding sorted_wrt_append by blast
  qed
  moreover have "length (take ?n ?s) = min ?n (length (filter (\<lambda>r. now - w \<le> lt_ts r) (latencies d)))"
    by (simp only: length_take length_rev length_sort min.commute)
  moreover have "set ?s = {r \<in> set (latencies d). now - w \<le> lt_ts r}" by simp
  ultimately show ?thesis
    using set_query_latency [of _ now w d] sorted_query_latency [of now w d] unfolding q by blast
qed

theorem query_latency_newest_witness:
  "length (query_latency 10 5 \<lparr>devices = [], latencies = [], netchecks = []\<rparr>) = 0"
  using query_latency_newest [of 10 5 "\<lparr>devices = [], latencies = [], netchecks = []\<rparr>"] by simp

subsection \<open>Properties of the aggregate\<close>

lemma stat_of_simps:
  "ps_src (stat_of ((s, t), g)) = s" "ps_dst (stat_of ((s, t), g)) = t"
  "ps_count (stat_of ((s, t), g)) = length g"
  by (simp_all add: stat_of_def Let_def)

lemma aggregate_entry:
  "p \<in> set (aggregate_latency rows) \<longleftrightarrow>
   (\<exists>r \<in> set rows. p = stat_of (pair_key r, filter (\<lambda>x. pair_key x = pair_key r) rows))"
  by (force simp: aggregate_latency_def group_by_entry_iff)

lemma sum_list_setdefault_append:
  "sum_list (map (\<lambda>e. length (snd e)) (setdefault_append k x g)) = Suc (sum_list (map (\<lambda>e. length (snd e)) g))"
  by (induction k x g rule: setdefault_append.induct) auto

lemma sum_list_group_by: "sum_list (map (\<lambda>e. length (snd e)) (group_by f xs)) = length xs"
proof -
  have "sum_list (map (\<lambda>e. length (snd e)) (group_into f xs g))
      = length xs + sum_list (map (\<lambda>e. length (snd e)) g)" for g
    by (induction xs arbitrary: g) (simp_all add: sum_list_setdefault_append)
  then show ?thesis by (simp add: group_by_def)
qed

lemma sum_list_sort_key: "sum_list (map f (sort_key g xs)) = sum_list (map (f :: _ \<Rightarrow> nat) xs)"
  by (metis mset_map mset_sort sum_mset_sum_list)

text \<open>The aggregate has one entry per pair of source and destination that occurs, sorted, and every
  row is counted in exactly one entry.\<close>

theorem aggregate_partition:
  "map (\<lambda>p. (ps_src p, ps_dst p)) (aggregate_latency rows) = sorted_list_of_set (pair_key ` set rows)
   \<and> sum_list (map ps_count (aggregate_latency rows)) = length rows"
proof
  let ?g = "sort_key fst (group_by pair_key rows)"
  have "map (\<lambda>p. (ps_src p, ps_dst p)) (aggregate_latency rows) = map fst ?g"
    by (auto simp: aggregate_latency_def stat_of_simps)
  moreover have "map fst ?g = sorted_list_of_set (pair_key ` set rows)"
  proof (rule sorted_distinct_set_unique)
    have "mset (map fst ?g) = mset (map fst (group_by pair_key rows))" by simp
    then show "distinct (map fst ?g)" using distinct_keys_group_by by (metis mset_eq_imp_distinct_iff)
    show "set (map fst ?g) = set (sorted_list_of_set (pair_key ` set rows))"
      by (simp add: fst_set_group_by)
  qed simp_all
  ultimately show "map (\<lambda>p. (ps_src p, ps_dst p)) (aggregate_latency rows)
      = sorted_list_of_set (pair_key ` set rows)" by simp
  have "map ps_count (aggregate_latency rows) = map (\<lambda>e. length (snd e)) ?g"
    by (auto simp: aggregate_latency_def stat_of_simps)
  then show "sum_list (map ps_count (aggregate_latency rows)) = length rows"
    by (simp add: sum_list_sort_key sum_list_group_by)
qed

lemma percent_bounds:
  assumes "k \<le> n" and "n \<le> 10000"
  shows "\<exists>r. percent k n = Fin r \<and> 0 \<le> r \<and> r \<le> 100"
proof (cases "n = 0")
  case False
  have e: "fl (of_int (int k)) = Fin (of_int (int k))" by (rule fl_of_int) (use assms in simp)
  have "fl (of_int (int k * 100)) = Fin (of_int (int k * 100))" by (rule fl_of_int) (use assms in simp)
  then have m: "fmul_pos (float_of_int (int k)) 100 = Fin (of_nat k * 100)"
    using e by (simp add: float_of_int_def)
  have "(of_nat k :: rat) \<le> of_nat n" using assms by simp
  then have "\<exists>r. fl (of_nat k * 100 / of_nat n) = Fin r \<and> 0 \<le> r \<and> r \<le> of_int 100"
    using False by (intro fl_bounds) (simp_all add: divide_le_eq)
  then obtain r where "fl (of_nat k * 100 / of_nat n) = Fin r" "0 \<le> r" "r \<le> of_int 100" by blast
  then show ?thesis
    using False round1_bounds [of r 100] m by (simp add: percent_def del: round1.simps)
qed (simp add: percent_def)

text \<open>C39: Over the rows the collector queries, the success and direct percentages of every pair are
  numbers between 0 and 100 in spite of floating point rounding, and no division is by zero.\<close>

theorem aggregate_percentages:
  "list_all (\<lambda>p. 1 \<le> ps_count p
      \<and> (\<exists>a b. ps_ok_pct p = Fin a \<and> 0 \<le> a \<and> a \<le> 100 \<and> ps_direct_pct p = Fin b \<and> 0 \<le> b \<and> b \<le> 100))
    (aggregate_latency (query_latency now w d))"
proof -
  let ?rows = "query_latency now w d"
  have "1 \<le> ps_count p
      \<and> (\<exists>a b. ps_ok_pct p = Fin a \<and> 0 \<le> a \<and> a \<le> 100 \<and> ps_direct_pct p = Fin b \<and> 0 \<le> b \<and> b \<le> 100)"
    if "p \<in> set (aggregate_latency ?rows)" for p
  proof -
    from that obtain r where r: "r \<in> set ?rows"
      and p: "p = stat_of (pair_key r, filter (\<lambda>x. pair_key x = pair_key r) ?rows)"
      unfolding aggregate_entry by blast
    let ?g = "filter (\<lambda>x. pair_key x = pair_key r) ?rows"
    have "r \<in> set ?g" using r by simp
    then have ne: "?g \<noteq> []" by (metis empty_iff list.set(1))
    have l: "length ?g \<le> 10000"
      using length_filter_le [of _ ?rows] length_query_latency [of now w d] by (meson order_trans)
    from percent_bounds [OF length_filter_le l, of lt_ok] percent_bounds [OF length_filter_le l, of is_direct]
    show ?thesis using ne p
      by (auto simp: stat_of_def Let_def Suc_le_eq split: prod.split simp del: filter_filter)
  qed
  then show ?thesis by (simp add: list_all_iff)
qed

text \<open>The last values of a pair are those of its newest row.\<close>

theorem aggregate_last_row:
  assumes "p \<in> set (aggregate_latency rows)"
  shows "\<exists>r. r \<in> set rows \<and> pair_key r = (ps_src p, ps_dst p) \<and> ps_last_ms p = lt_rtt r
    \<and> ps_last_path p = lt_path r \<and> ps_last_ts p = lt_ts r
    \<and> list_all (\<lambda>x. pair_key x \<noteq> pair_key r \<or> lt_ts x \<le> lt_ts r) rows"
proof -
  from assms obtain r0 where r0: "r0 \<in> set rows"
    and p: "p = stat_of (pair_key r0, filter (\<lambda>x. pair_key x = pair_key r0) rows)"
    unfolding aggregate_entry by blast
  let ?g = "filter (\<lambda>x. pair_key x = pair_key r0) rows"
  let ?r = "max_key lt_ts ?g"
  have "r0 \<in> set ?g" using r0 by simp
  then have "?g \<noteq> []" by (metis empty_iff list.set(1))
  then have m: "?r \<in> set ?g" by (rule max_key_in)
  have "lt_ts x \<le> lt_ts ?r" if "x \<in> set ?g" for x using that by (rule max_key_ge)
  then have "list_all (\<lambda>x. pair_key x \<noteq> pair_key ?r \<or> lt_ts x \<le> lt_ts ?r) rows"
    using m by (auto simp: list_all_iff)
  with m p show ?thesis
    by (intro exI [of _ ?r]) (simp add: stat_of_def Let_def split: prod.split)
qed

definition two_rows :: "latency list" where
  "two_rows =
     [\<lparr>lt_ts = 5, lt_src = ''a'', lt_dst = ''b'', lt_dst_ip = [], lt_rtt = Some (Fin 3),
       lt_path = ''direct'', lt_ok = True\<rparr>,
      \<lparr>lt_ts = 9, lt_src = ''a'', lt_dst = ''b'', lt_dst_ip = [], lt_rtt = Some (Fin 1),
       lt_path = ''derp:sin'', lt_ok = True\<rparr>]"

definition two_rows_stat :: pair_stat where
  "two_rows_stat = stat_of ((''a'', ''b''), two_rows)"

lemma two_rows_aggregate: "aggregate_latency two_rows = [two_rows_stat]"
proof -
  have "group_by pair_key two_rows = [((''a'', ''b''), two_rows)]"
    by (simp add: group_by_def two_rows_def pair_key_def)
  then show ?thesis by (simp add: aggregate_latency_def two_rows_stat_def)
qed

theorem aggregate_last_row_witness: "ps_last_ts two_rows_stat = 9"
proof -
  have "two_rows_stat \<in> set (aggregate_latency two_rows)" by (simp add: two_rows_aggregate)
  from aggregate_last_row [OF this] show ?thesis
    by (auto simp: two_rows_def two_rows_stat_def stat_of_simps pair_key_def)
qed

text \<open>Without NaN, \<open>min\<close> and \<open>max\<close> find an extreme element.\<close>

lemma fless_NaN: "\<not> fless x NaN"
  by (cases x) simp_all

lemma fless_irrefl: "\<not> fless x x"
  by (cases x) simp_all

lemma fless_negtrans: "\<not> fless x y \<Longrightarrow> \<not> fless y z \<Longrightarrow> y \<noteq> NaN \<Longrightarrow> \<not> fless x z"
  by (cases x; cases y; cases z) simp_all

lemma fless_asym: "fless x y \<Longrightarrow> \<not> fless y x"
  by (cases x; cases y) simp_all

lemma extreme_fold:
  fixes lt :: "pyfloat \<Rightarrow> pyfloat \<Rightarrow> bool"
  assumes "\<And>x y z. \<not> lt x y \<Longrightarrow> \<not> lt y z \<Longrightarrow> y \<noteq> NaN \<Longrightarrow> \<not> lt x z"
    and "\<And>x. \<not> lt x x" and "\<And>x y. lt x y \<Longrightarrow> \<not> lt y x"
    and "NaN \<notin> set (m # xs)"
  shows "foldl (\<lambda>m x. if lt x m then x else m) m xs \<in> set (m # xs)
    \<and> list_all (\<lambda>x. \<not> lt x (foldl (\<lambda>m x. if lt x m then x else m) m xs)) (m # xs)"
  using assms(4)
proof (induction xs arbitrary: m)
  case Nil
  then show ?case by (simp add: assms(2))
next
  case (Cons y ys)
  let ?m = "if lt y m then y else m"
  let ?r = "foldl (\<lambda>m x. if lt x m then x else m) ?m ys"
  have ih: "?r \<in> set (?m # ys)" "list_all (\<lambda>x. \<not> lt x ?r) (?m # ys)"
    using Cons.IH [of ?m] Cons.prems by auto
  have "?m \<noteq> NaN" using Cons.prems by auto
  moreover have "\<not> lt m ?m" "\<not> lt y ?m" using assms(2,3) by auto
  moreover have "\<not> lt ?m ?r" using ih(2) by simp
  ultimately have "\<not> lt m ?r" "\<not> lt y ?r" using assms(1) [of _ ?m ?r] by blast+
  moreover have "?r \<in> set (m # y # ys)" using ih(1) by (auto split: if_splits)
  ultimately show ?case using ih(2) by simp
qed

lemma float_min_extreme:
  assumes "xs \<noteq> []" "NaN \<notin> set xs"
  shows "float_min xs \<in> set xs \<and> list_all (\<lambda>x. \<not> fless x (float_min xs)) xs"
proof -
  obtain m ys where xs: "xs = m # ys" using assms(1) by (cases xs) auto
  show ?thesis unfolding xs float_min_def list.sel
    by (rule extreme_fold [of fless])
      (use assms(2) xs fless_irrefl fless_asym in \<open>auto dest: fless_negtrans\<close>)
qed

lemma float_max_extreme:
  assumes "xs \<noteq> []" "NaN \<notin> set xs"
  shows "float_max xs \<in> set xs \<and> list_all (\<lambda>x. \<not> fless (float_max xs) x) xs"
proof -
  obtain m ys where xs: "xs = m # ys" using assms(1) by (cases xs) auto
  show ?thesis unfolding xs float_max_def list.sel
    by (rule extreme_fold [of "\<lambda>x y. fless y x"])
      (use assms(2) xs fless_irrefl fless_asym in \<open>auto dest: fless_negtrans\<close>)
qed

text \<open>Where no stored round-trip time is NaN, a pair has a minimum and a maximum exactly when it has
  a successful row with a time, and they are the rounded times of two such rows, none of which is
  below the one or above the other.\<close>

theorem aggregate_extremes:
  assumes "p \<in> set (aggregate_latency rows)" and "list_all (\<lambda>r. lt_rtt r \<noteq> Some NaN) rows"
    and "xs = ok_rtts (filter (\<lambda>r. pair_key r = (ps_src p, ps_dst p)) rows)"
  shows "(xs = [] \<longrightarrow> ps_min p = None \<and> ps_max p = None)
    \<and> (xs \<noteq> [] \<longrightarrow> (\<exists>lo hi. lo \<in> set xs \<and> hi \<in> set xs \<and> ps_min p = Some (round1 lo)
        \<and> ps_max p = Some (round1 hi) \<and> list_all (\<lambda>x. \<not> fless x lo \<and> \<not> fless hi x) xs))"
proof -
  from assms(1) obtain r0 where
    p: "p = stat_of (pair_key r0, filter (\<lambda>x. pair_key x = pair_key r0) rows)"
    unfolding aggregate_entry by blast
  then have "(ps_src p, ps_dst p) = pair_key r0"
    by (cases "pair_key r0") (simp add: stat_of_simps)
  with assms(3) have xs: "xs = ok_rtts (filter (\<lambda>r. pair_key r = pair_key r0) rows)" by simp
  have m: "ps_min p = rtt_stat float_min xs" "ps_max p = rtt_stat float_max xs"
    unfolding p xs by (simp_all add: stat_of_def Let_def split: prod.split)
  have "NaN \<notin> set xs"
    using assms(2) by (auto simp: xs ok_rtts_def list_all_iff split: if_splits)
  note e = float_min_extreme [OF _ this] float_max_extreme [OF _ this]
  show ?thesis
  proof (cases "xs = []")
    case False
    then have "\<exists>lo hi. lo \<in> set xs \<and> hi \<in> set xs \<and> ps_min p = Some (round1 lo)
        \<and> ps_max p = Some (round1 hi) \<and> list_all (\<lambda>x. \<not> fless x lo \<and> \<not> fless hi x) xs"
      using e by (intro exI [of _ "float_min xs"] exI [of _ "float_max xs"])
        (simp add: m rtt_stat_def list_all_iff del: round1.simps)
    with False show ?thesis by blast
  qed (simp add: m rtt_stat_def)
qed

theorem aggregate_extremes_witness:
  "ps_min two_rows_stat = Some (Fin 1)"
proof -
  have x: "ok_rtts (filter (\<lambda>r. pair_key r = (ps_src two_rows_stat, ps_dst two_rows_stat)) two_rows)
      = [Fin 3, Fin 1]"
    by (simp add: two_rows_stat_def stat_of_simps two_rows_def pair_key_def ok_rtts_def)
  have "two_rows_stat \<in> set (aggregate_latency two_rows)" by (simp add: two_rows_aggregate)
  moreover have "list_all (\<lambda>r. lt_rtt r \<noteq> Some NaN) two_rows" by (simp add: two_rows_def)
  ultimately show ?thesis
    using aggregate_extremes [of two_rows_stat two_rows "[Fin 3, Fin 1]"] x
    by (auto simp: float_eval simp del: round1.simps)
qed

subsection \<open>Stale reporters and series\<close>

text \<open>A reporter is stale exactly when it is expected and none of the rows is its own and inside the
  window; the answer keeps the order and the repetitions of the expected list.\<close>

theorem stale_reporters_exact:
  "set (stale_reporters rows expected now window) =
     {s \<in> set expected. \<not> (\<exists>r. r \<in> set rows \<and> lt_src r = s \<and> now - window \<le> lt_ts r)}
   \<and> subseq (stale_reporters rows expected now window) expected"
  by (auto simp: stale_reporters_def Let_def)

lemma in_series_points:
  "(k, t, x) \<in> set (series_points rows) \<longleftrightarrow>
   (\<exists>r \<in> set rows. lt_ok r \<and> lt_rtt r = Some x \<and> series_key r = k \<and> lt_ts r = t)"
  unfolding series_points_def set_somes set_map image_iff
proof (rule bex_cong [OF refl])
  fix r
  show "Some (k, t, x) = (if lt_ok r then map_option (\<lambda>x. (series_key r, lt_ts r, x)) (lt_rtt r) else None)
      \<longleftrightarrow> lt_ok r \<and> lt_rtt r = Some x \<and> series_key r = k \<and> lt_ts r = t"
    by (cases "lt_rtt r") auto
qed

lemma series_points_keys:
  "fst ` set (series_points rows) = series_key ` {r \<in> set rows. lt_ok r \<and> lt_rtt r \<noteq> None}"
proof (rule set_eqI)
  fix k
  have "k \<in> fst ` set (series_points rows) \<longleftrightarrow> (\<exists>t x. (k, t, x) \<in> set (series_points rows))"
    by force
  then show "k \<in> fst ` set (series_points rows)
      \<longleftrightarrow> k \<in> series_key ` {r \<in> set rows. lt_ok r \<and> lt_rtt r \<noteq> None}"
    unfolding in_series_points by auto
qed

lemma series_entry:
  "snd ` {p \<in> set (series_points rows). fst p = k}
   = {(t, x). \<exists>r. r \<in> set rows \<and> lt_ok r \<and> lt_rtt r = Some x \<and> series_key r = k \<and> lt_ts r = t}"
proof -
  have "snd ` {p \<in> S. fst p = k} = {(t, x). (k, t, x) \<in> S}" for S :: "(string \<times> int \<times> pyfloat) set"
    by force
  then show ?thesis by (simp add: in_series_points Bex_def)
qed

text \<open>The chart data have one series per label that has a successful timed row, labels in order; a
  series holds exactly the times and round-trip times of those rows, in order of time.\<close>

theorem latency_series_points:
  "map fst (latency_series rows) =
     sorted_list_of_set (series_key ` {r \<in> set rows. lt_ok r \<and> lt_rtt r \<noteq> None})
   \<and> list_all (\<lambda>(k, ps). sorted (map fst ps)
       \<and> set ps = {(t, x). \<exists>r. r \<in> set rows \<and> lt_ok r \<and> lt_rtt r = Some x \<and> series_key r = k \<and> lt_ts r = t})
       (latency_series rows)"
proof
  let ?g = "sort_key fst (group_by fst (series_points rows))"
  have "map fst (latency_series rows) = map fst ?g"
    by (auto simp: latency_series_def)
  moreover have "map fst ?g
      = sorted_list_of_set (series_key ` {r \<in> set rows. lt_ok r \<and> lt_rtt r \<noteq> None})"
  proof (rule sorted_distinct_set_unique)
    have "mset (map fst ?g) = mset (map fst (group_by fst (series_points rows)))" by simp
    then show "distinct (map fst ?g)" using distinct_keys_group_by by (metis mset_eq_imp_distinct_iff)
    show "set (map fst ?g)
        = set (sorted_list_of_set (series_key ` {r \<in> set rows. lt_ok r \<and> lt_rtt r \<noteq> None}))"
      by (simp add: fst_set_group_by series_points_keys)
  qed simp_all
  ultimately show "map fst (latency_series rows)
      = sorted_list_of_set (series_key ` {r \<in> set rows. lt_ok r \<and> lt_rtt r \<noteq> None})" by simp
  show "list_all (\<lambda>(k, ps). sorted (map fst ps)
       \<and> set ps = {(t, x). \<exists>r. r \<in> set rows \<and> lt_ok r \<and> lt_rtt r = Some x \<and> series_key r = k \<and> lt_ts r = t})
       (latency_series rows)"
    by (auto simp: list_all_iff latency_series_def group_by_entry_iff series_entry)
qed

end
