(* ===== verification/Pages.thy ===== *)
theory Pages
  imports PyStr
begin

text \<open>
  The two HTML templates of \<open>node-dedup/dedup.py\<close>, \<open>_STATS_PAGE\<close> and \<open>_DERP_PAGE\<close>, line by
  line, with their placeholders.
\<close>

subsection \<open>_STATS_PAGE\<close>

definition stats_part1 :: string where
  \<open>stats_part1 = join [NL]
    [''<!doctype html><html lang="vi"><head><meta charset="utf-8">'',
     ''<meta name="viewport" content="width=device-width,initial-scale=1">'',
     ''<meta http-equiv="refresh" content="30">'',
     ''<title>Tailnet - Thong ke</title>'',
     ''<script src="https://cdn.jsdelivr.net/npm/chart.js@4"></script>'',
     ''<style>'',
     '':root{color-scheme:dark}'',
     ''body{font-family:system-ui,Segoe UI,Arial,sans-serif;margin:0;background:#0b1220;color:#e2e8f0}'',
     ''header{padding:18px 24px;background:#111a2e;border-bottom:1px solid #24304a}'',
     ''h1{margin:0;font-size:18px}.muted{color:#94a3b8;font-size:12px}'',
     ''main{padding:20px 24px;max-width:1100px;margin:0 auto}'',
     ''.cards{display:flex;gap:14px;flex-wrap:wrap;margin-bottom:20px}'',
     ''.card{background:#131d33;border:1px solid #24304a;border-radius:12px;padding:14px 18px;min-width:130px}'',
     ''.card .v{font-size:26px;font-weight:700}.card .l{color:#94a3b8;font-size:12px;margin-top:4px}'',
     ''.grid{display:grid;grid-template-columns:1fr 1fr;gap:18px;margin-bottom:22px}'',
     ''@media(max-width:820px){.grid{grid-template-columns:1fr}}'',
     ''.panel{background:#131d33;border:1px solid #24304a;border-radius:12px;padding:14px}'',
     ''.panel h2{margin:2px 0 10px;font-size:14px;color:#cbd5e1}'',
     ''table{border-collapse:collapse;width:100%}'',
     ''th,td{border-bottom:1px solid #24304a;padding:7px 10px;text-align:left;font-size:13px}'',
     ''th{color:#94a3b8;font-weight:600}'',
     ''.tag{padding:1px 8px;border-radius:999px;font-size:11px}'',
     ''.direct{background:#064e3b;color:#6ee7b7}.derp{background:#4a2d0b;color:#fcd34d}'',
     ''.bad{color:#fca5a5}'',
     ''</style></head><body>'',
     ''<header><h1>Tailnet - Latency &amp; Devices</h1>'',
     ''<div class="muted" id="sub"></div></header>'',
     ''<main>'',
     ''<div class="cards" id="cards"></div>'',
     ''<div class="grid">'',
     ''  <div class="panel"><h2>Avg latency moi cap (ms)</h2><canvas id="bar" height="160"></canvas></div>'',
     ''  <div class="panel"><h2>RTT theo thoi gian</h2><canvas id="line" height="160"></canvas></div>'',
     ''</div>'',
     ''<div class="panel" style="margin-bottom:22px"><h2>Chi tiet latency</h2>'',
     ''<table><thead><tr><th>src</th><th>dst</th><th>min</th><th>avg</th><th>max</th><th>last</th><th>path</th><th>%direct</th><th>mau</th></tr></thead><tbod'' @
      ''y id="lat"></tbody></table></div>'',
     ''<div class="panel"><h2>Thiet bi (MAC tu node bao cao)</h2>'',
     ''<table><thead><tr><th>hostname</th><th>MAC</th><th>tailnet ip</th><th>lan thay</th></tr></thead><tbody id="dev"></tbody></table></div>'',
     ''</main>'',
     ''<script>'',
     ''const D = '']\<close>

definition stats_part2 :: string where
  \<open>stats_part2 = join [NL]
    ['';'',
     ''const esc = s => String(s==null?"":s).replace(/[&<>]/g,c=>({"&":"&amp;","<":"&lt;",">":"&gt;"}[c]));'',
     ''const fmt = v => v==null?"-":v;'',
     ''const ts = D.pairs.reduce((a,p)=>a+p.count,0);'',
     ''const wd = ts? D.pairs.reduce((a,p)=>a+p.direct_pct*p.count,0)/ts : 0;'',
     ''document.getElementById("sub").textContent ='',
     ''  "Cua so "+D.window_min+" phut - cap nhat "+new Date(D.generated*1000).toLocaleString()+" - tu refresh 30s";'',
     ''const cards=['' @
      ''[D.devices.length,"thiet bi"],[D.pairs.length,"cap node"],[ts,"mau ("+D.window_min+"p)"],[wd.toFixed(0)+"%","di thang"]'' @
      ''];'',
     ''document.getElementById("cards").innerHTML = cards.map(c=>'',
     ''  '<div class="card"><div class="v">'+esc(c[0])+'</div><div class="l">'+esc(c[1])+'</div></div>').join("");'',
     ''document.getElementById("lat").innerHTML = D.pairs.length? D.pairs.map(p=>'',
     ''  "<tr><td>"+esc(p.src)+"</td><td>"+esc(p.dst)+"</td><td>"+fmt(p.min_ms)+"</td><td>"+fmt(p.avg_ms)+"</td><td>"+fmt(p.max_ms)+"</td><td>"+fmt(p.last_ms'' @
      '')+"</td><td>"+esc(p.last_path||"")+"</td><td>"+p.direct_pct+"%</td><td>"+p.count+"</td></tr>").join("")'',
     ''  : '<tr><td colspan="9" class="muted">chua co du lieu - kiem tra node da chay reporter + thay peer collector chua</td></tr>';'',
     ''document.getElementById("dev").innerHTML = D.devices.length? D.devices.map(d=>'',
     ''  "<tr><td>"+esc(d.hostname)+"</td><td>"+(d.mac?esc(d.mac):'<span class="bad">(chua bao cao)</span>')+"</td><td>"+esc(d.ipv4)+"</td><td>"+(d.seen_coun'' @
      ''t||0)+"</td></tr>").join("")'',
     ''  : '<tr><td colspan="4" class="muted">chua co thiet bi</td></tr>';'',
     ''const palette=["#38bdf8","#f472b6","#a3e635","#fbbf24","#c084fc","#fb7185","#34d399"];'',
     ''new Chart(document.getElementById("bar"),{type:"bar",'',
     ''  data:{labels:D.pairs.map(p=>p.src+"->"+p.dst),datasets:[{label:"avg ms",data:D.pairs.map(p=>p.avg_ms),backgroundColor:"#38bdf8"}]},'',
     ''  options:{plugins:{legend:{display:false}},scales:{y:{title:{display:true,text:"ms"},beginAtZero:true}}}});'',
     ''new Chart(document.getElementById("line"),{type:"line",'',
     ''  data:{datasets:D.series.map((s,i)=>({label:s.pair,data:s.points.map(pt=>({x:pt.t*1000,y:pt.rtt})),borderColor:palette[i%palette.length],backgroundCo'' @
      ''lor:palette[i%palette.length],tension:.3,pointRadius:2}))},'',
     ''  options:{scales:{x:{type:"linear",ticks:{callback:v=>new Date(v).toLocaleTimeString()}},y:{title:{display:true,text:"ms"},beginAtZero:true}}}});'',
     ''</script></body></html>'']\<close>

definition stats_page :: string where
  "stats_page =
     stats_part1 @ ''__DATA__'' @ stats_part2"

subsection \<open>_DERP_PAGE\<close>

definition derp_part1 :: string where
  \<open>derp_part1 = join [NL]
    [''<!doctype html><html lang="vi"><head><meta charset="utf-8">'',
     ''<meta name="viewport" content="width=device-width,initial-scale=1">'',
     ''<title>DERP Status</title>'',
     ''<style>'',
     '':root{color-scheme:dark}'',
     ''body{font-family:system-ui,Segoe UI,Arial,sans-serif;margin:0;background:#0b1220;color:#e2e8f0}'',
     ''header{padding:18px 24px;background:#111a2e;border-bottom:1px solid #24304a;display:flex;align-items:center;gap:12px}'',
     ''h1{margin:0;font-size:18px}'',
     ''.btn{background:#1e293b;color:#94a3b8;padding:6px 14px;border-radius:8px;font-size:12px;text-decoration:none}'',
     ''.muted{color:#94a3b8;font-size:12px}'',
     ''main{padding:20px 24px;max-width:960px;margin:0 auto}'',
     ''.regions{display:flex;gap:14px;flex-wrap:wrap;margin-bottom:22px}'',
     ''.rcard{background:#131d33;border:1px solid #24304a;border-radius:12px;padding:14px 20px;min-width:200px}'',
     ''.rcard.ok{border-color:#065f46}.rcard.fail{border-color:#7f1d1d}'',
     ''.rcode{font-size:14px;font-weight:700}.rlat{font-size:26px;font-weight:700;margin:6px 0}'',
     ''.rurl{color:#475569;font-size:11px;word-break:break-all}.rerr{color:#fca5a5;font-size:11px;margin-top:4px}'',
     ''.dot{display:inline-block;width:10px;height:10px;border-radius:50%;margin-right:6px;vertical-align:middle}'',
     ''.dot.ok{background:#34d399}.dot.fail{background:#f87171}.dot.off{background:#475569}'',
     ''.panel{background:#131d33;border:1px solid #24304a;border-radius:12px;padding:14px;margin-bottom:22px}'',
     ''.panel h2{margin:2px 0 10px;font-size:14px;color:#cbd5e1}'',
     ''table{border-collapse:collapse;width:100%}'',
     ''th,td{border-bottom:1px solid #24304a;padding:8px 10px;text-align:left;font-size:13px}'',
     ''th{color:#94a3b8;font-weight:600}'',
     ''tr.off td{opacity:.45}'',
     ''.tag{padding:2px 9px;border-radius:999px;font-size:11px;font-weight:600;display:inline-block}'',
     ''.direct{background:#064e3b;color:#6ee7b7}'',
     ''.derp{background:#312e81;color:#a5b4fc}'',
     ''.derp-dead{background:#7f1d1d;color:#fca5a5;border:1px solid #dc2626}'',
     ''.offline{background:#1e293b;color:#64748b}'',
     ''.bad{color:#fca5a5}'',
     ''.note{color:#64748b;font-size:11px}'',
     ''.src-badge{font-family:monospace;font-weight:700;color:#38bdf8;font-size:12px;white-space:nowrap}'',
     ''</style></head><body>'',
     ''<header>'',
     ''  <h1>DERP Status</h1>'',
     ''  <span class="note ts-label" style="margin-left:8px">c&#7853;p nh&#7853;t: '']\<close>

definition derp_part2 :: string where
  \<open>derp_part2 = join [NL]
    ['' &bull; t&#7921; refresh 5s</span>'',
     ''  <a href="/stats" class="btn" style="margin-left:auto">&#128202; Th&#7889;ng k&#234;</a>'',
     ''  <a href="/admin" class="btn">&#128100; Admin</a>'',
     ''</header>'',
     ''<main id="derp-main">'',
     ''<div class="regions">'']\<close>

definition derp_part3 :: string where
  \<open>derp_part3 = join [NL]
    [''</div>'',
     ''<div class="panel">'',
     ''  <h2>Ping t&#7915; t&#7915;ng server &#8594; node &nbsp;<span class="note">&#8212; RTT &#273;o l&#432;u DB m&#7895;i 30s; direct = UDP P2P; via DERP '' @
      ''= relay</span></h2>'',
     ''  '']\<close>

definition derp_part4 :: string where
  \<open>derp_part4 = join [NL]
    [[],
     ''</div>'',
     ''<div class="panel">'',
     ''  <h2>Node &#273;ang d&#249;ng DERP n&#224;o (real-time t&#7915; tailscale LocalAPI)</h2>'',
     ''  <table><thead><tr>'',
     ''    <th>Node</th><th>Tailnet IP</th><th>K&#7871;t n&#7889;i qua</th><th>Online</th>'',
     ''  </tr></thead><tbody>'']\<close>

definition derp_part5 :: string where
  \<open>derp_part5 = join [NL]
    [''</tbody></table>'',
     ''  <p class="note" style="margin-top:10px">'',
     ''    <b>direct</b> = k&#7871;t n&#7889;i th&#7859;ng P2P (kh&#244;ng qua DERP) &nbsp;&bull;&nbsp;'',
     ''    <b>vpn3-vn / vpn2</b> = &#273;ang relay qua DERP region &#273;&#243;'',
     ''  </p>'',
     ''</div>'',
     ''</main>'',
     ''<script>'',
     ''(function(){'',
     ''  function refresh(){'',
     ''    fetch(location.pathname,{cache:'no-store'})'',
     ''      .then(function(r){return r.text();})'',
     ''      .then(function(html){'',
     ''        var doc=new DOMParser().parseFromString(html,'text/html');'',
     ''        var nm=doc.getElementById('derp-main');'',
     ''        var cm=document.getElementById('derp-main');'',
     ''        if(nm&&cm)cm.innerHTML=nm.innerHTML;'',
     ''        var nl=doc.querySelector('.ts-label');'',
     ''        var cl=document.querySelector('.ts-label');'',
     ''        if(nl&&cl)cl.textContent=nl.textContent;'',
     ''      }).catch(function(){});'',
     ''  }'',
     ''  setInterval(refresh,5000);'',
     ''})();'',
     ''</script>'',
     ''</body></html>'']\<close>

definition derp_page :: string where
  "derp_page =
     derp_part1 @ ''__GENERATED__'' @ derp_part2 @ ''__REGIONS__'' @ derp_part3 @ ''__PINGS__'' @ derp_part4 @ ''__ROWS__'' @ derp_part5"

subsection \<open>No placeholder hides inside a part\<close>

lemma derp_parts_plain:
  "CHR ''_'' \<notin> set derp_part1" "CHR ''_'' \<notin> set derp_part2" "CHR ''_'' \<notin> set derp_part3"
  "CHR ''_'' \<notin> set derp_part4" "CHR ''_'' \<notin> set derp_part5"
  by (simp_all add: derp_part1_def derp_part2_def derp_part3_def derp_part4_def derp_part5_def NL_def)

lemma stats_part1_plain: "\<not> contains ''__DATA__'' stats_part1"
  by (simp add: stats_part1_def NL_def)

lemma stats_part2_plain: "\<not> contains ''__DATA__'' stats_part2"
  by (simp add: stats_part2_def NL_def)

end
