(* ===== verification/DerpView.thy ===== *)
theory DerpView
  imports Stats Pages
begin

text \<open>
  The two web pages of the collector: \<open>peer_relay_from_status\<close>, \<open>_parse_derp_regions\<close>,
  \<open>probe_derp_region\<close>, \<open>render_derp_html\<close> and \<open>render_stats_html\<close> of \<open>node-dedup/dedup.py\<close>.
  Probing a region is the parameter \<open>fetch\<close> (the outcome of \<open>urlopen\<close> with the seconds it took),
  the local time text is the parameter \<open>gen\<close>, and \<open>dash\<close> stands for the one character of the
  pages beyond Latin-1, the em dash.
\<close>

subsection \<open>Peers of the LocalAPI status\<close>

record relay_peer =
  rp_hostname :: string
  rp_ip :: string
  rp_relay :: string
  rp_direct :: bool
  rp_online :: bool

text \<open>\<open>peer.get(k, "") or ""\<close> for a field the schema says is a string.\<close>

definition peer_text :: "json \<Rightarrow> string \<Rightarrow> string res" where
  "peer_text peer k = rbind (jget peer k (JStr [])) str_or_empty"

definition relay_peer_of :: "json \<Rightarrow> relay_peer res" where
  "relay_peer_of peer =
     rbind (peer_text peer ''DNSName'') (\<lambda>dns.
     rbind (peer_text peer ''HostName'') (\<lambda>name.
     let host = (if name \<noteq> [] then name else hd (split_char (CHR ''.'') dns)) in
     rbind (jget peer ''TailscaleIPs'' (JArr [])) (\<lambda>v.
     rbind (as_strs (py_or v (JArr []))) (\<lambda>addrs.
     rbind (peer_text peer ''Relay'') (\<lambda>relay.
     rbind (peer_text peer ''CurAddr'') (\<lambda>cur.
     rbind (jget peer ''Online'' (JBool False)) (\<lambda>on.
     Inr \<lparr>rp_hostname = host, rp_ip = first_ipv4 addrs, rp_relay = strip relay,
          rp_direct = strip cur \<noteq> [], rp_online = truthy on\<rparr>)))))))"

text \<open>\<open>(status.get("Peer") or {}).items()\<close>.\<close>

definition status_peers :: "jobj \<Rightarrow> json list res" where
  "status_peers status =
     (case py_or (dget status ''Peer'' JNull) (JObj []) of
        JObj ps \<Rightarrow> Inr (map snd ps)
      | _ \<Rightarrow> Inl AttributeError)"

definition peer_relay_from_status :: "json \<Rightarrow> relay_peer list res" where
  "peer_relay_from_status status =
     (case status of
        JObj d \<Rightarrow>
          rbind (status_peers d) (\<lambda>ps.
          rbind (rmap relay_peer_of ps) (\<lambda>out. Inr (sort_key rp_hostname out)))
      | _ \<Rightarrow> Inr [])"

subsection \<open>DERP regions and their probes\<close>

record region =
  rg_code :: string
  rg_url :: string

record probed = region +
  pb_ok :: bool
  pb_latency :: "pyfloat option"
  pb_error :: "string option"

definition parse_region :: "string \<Rightarrow> region option" where
  "parse_region p =
     (case split1 ''='' (strip p) of
        (a, None) \<Rightarrow> None
      | (a, Some b) \<Rightarrow> Some \<lparr>rg_code = strip a, rg_url = strip b\<rparr>)"

definition parse_derp_regions :: "string \<Rightarrow> region list" where
  "parse_derp_regions raw = somes (map parse_region (split_char (CHR '','') raw))"

text \<open>What \<open>urlopen\<close> did: the text of an exception, or a status after some seconds.\<close>

type_synonym fetch_result = "string + (int \<times> pyfloat)"

definition probe_derp_region :: "(string \<Rightarrow> fetch_result) \<Rightarrow> region \<Rightarrow> probed" where
  "probe_derp_region fetch r =
     (case fetch (rg_url r) of
        Inr (status, seconds) \<Rightarrow>
          \<lparr>rg_code = rg_code r, rg_url = rg_url r, pb_ok = (status = 200),
           pb_latency = Some (round1 (fmul_pos seconds 1000)), pb_error = None\<rparr>
      | Inl e \<Rightarrow>
          \<lparr>rg_code = rg_code r, rg_url = rg_url r, pb_ok = False, pb_latency = None,
           pb_error = Some (take 80 e)\<rparr>)"

subsection \<open>Cells of the DERP page\<close>

definition escape_char :: "char \<Rightarrow> string" where
  "escape_char c =
     (if c = CHR ''&'' then ''&amp;'' else if c = CHR ''<'' then ''&lt;''
      else if c = CHR ''>'' then ''&gt;'' else if c = CHR 0x22 then ''&quot;''
      else if c = CHR 0x27 then ''&#x27;'' else [c])"

definition html_escape :: "string \<Rightarrow> string" where
  "html_escape s = concat (map escape_char s)"

definition Q :: string where "Q = [CHR 0x22]"
definition A :: string where "A = [CHR 0x27]"

definition or_dash :: "string \<Rightarrow> string" where
  "or_dash s = (if s = [] then ''-'' else s)"

text \<open>\<open>"%sms" % x\<close>, or a dash for \<open>None\<close>.\<close>

definition ms_text :: "pyfloat option \<Rightarrow> string" where
  "ms_text x = (case x of None \<Rightarrow> ''-'' | Some r \<Rightarrow> float_repr r @ ''ms'')"

definition dead_codes :: "probed list \<Rightarrow> string set" where
  "dead_codes regions = rg_code ` set (filter (\<lambda>r. \<not> pb_ok r) regions)"

definition vpn_name :: "string \<Rightarrow> string" where
  "vpn_name rc = (if rc = ''myderp'' then ''vpn2'' else rc)"

definition rcard :: "probed \<Rightarrow> string" where
  "rcard r =
     (let cls = (if pb_ok r then ''ok'' else ''fail'');
          err = (case pb_error r of
                   None \<Rightarrow> []
                 | Some e \<Rightarrow> if e = [] then []
                     else ''<div class='' @ Q @ ''rerr'' @ Q @ ''>'' @ html_escape e @ ''</div>'')
      in ''<div class='' @ Q @ ''rcard '' @ cls @ Q @ ''><span class='' @ Q @ ''dot '' @ cls @ Q @ ''></span>''
         @ ''<span class='' @ Q @ ''rcode'' @ Q @ ''>'' @ html_escape (vpn_name (rg_code r)) @ ''</span>''
         @ ''<div class='' @ Q @ ''rlat'' @ Q @ ''>'' @ ms_text (pb_latency r) @ ''</div>''
         @ ''<div class='' @ Q @ ''rurl'' @ Q @ ''>'' @ html_escape (rg_url r) @ ''</div>'' @ err @ ''</div>'')"

definition regions_html :: "probed list \<Rightarrow> string" where
  "regions_html regions =
     (if regions \<noteq> [] then concat (map rcard regions)
      else ''<p class='' @ Q @ ''muted'' @ Q @ ''>Ch&#432;a c&#7845;u h&#236;nh DERP_PROBE_URLS</p>'')"

definition tag :: "string \<Rightarrow> string \<Rightarrow> string" where
  "tag cls body = ''<span class='' @ Q @ ''tag '' @ cls @ Q @ ''>'' @ body @ ''</span>''"

definition bad_span :: "string \<Rightarrow> string" where
  "bad_span body = ''<span class='' @ Q @ ''bad'' @ Q @ ''>'' @ body @ ''</span>''"

definition via_tag :: "string set \<Rightarrow> relay_peer \<Rightarrow> string" where
  "via_tag dead p =
     (if \<not> rp_online p then tag ''offline'' ''offline''
      else if rp_direct p then tag ''direct'' ''direct (P2P)''
      else
        let relay = rp_relay p in
        if relay \<noteq> [] then
          (if relay \<in> dead
           then ''<span class='' @ Q @ ''tag derp-dead'' @ Q @ '' title='' @ Q
             @ ''DERP region nay dang chet! '' @ ''Node dang dung backup path (se tu chuyen ~30-120s)''
             @ Q @ ''>'' @ ''&#9888; '' @ html_escape (vpn_name relay) @ ''</span>''
           else tag ''derp'' (html_escape (vpn_name relay)))
        else bad_span ''?'')"

definition peer_row :: "string set \<Rightarrow> relay_peer \<Rightarrow> string" where
  "peer_row dead p =
     ''<tr'' @ (if rp_online p then [] else '' class='' @ A @ ''off'' @ A)
     @ ''><td>'' @ html_escape (rp_hostname p) @ ''</td><td>'' @ html_escape (or_dash (rp_ip p))
     @ ''</td><td>'' @ via_tag dead p @ ''</td>''
     @ ''<td><span class='' @ A @ ''dot '' @ (if rp_online p then ''ok'' else ''off'') @ A @ ''></span>''
     @ (if rp_online p then ''online'' else ''offline'') @ ''</td></tr>''"

definition rows_html :: "char \<Rightarrow> string set \<Rightarrow> relay_peer list \<Rightarrow> string" where
  "rows_html dash dead ps =
     (if ps \<noteq> [] then concat (map (peer_row dead) ps)
      else ''<tr><td colspan='' @ Q @ ''4'' @ Q @ '' class='' @ Q @ ''muted'' @ Q @ ''>''
         @ ''Ch&#432;a c&#243; d&#7919; li&#7879;u '' @ [dash] @ '' ''
         @ ''collector ch&#432;a join tailnet</td></tr>'')"

definition path_tag :: "string set \<Rightarrow> peer_ping \<Rightarrow> string" where
  "path_tag dead p =
     (let path = pp_relay p in
      if \<not> pp_ok p then tag ''offline'' ''l&#7895;i''
      else if path = ''direct'' then tag ''direct'' ''direct (UDP P2P)''
      else if starts_with ''derp:'' path then
        (let rc = drop 5 path
         in tag (if rc \<in> dead then ''derp-dead'' else ''derp'') (''via '' @ html_escape (vpn_name rc)))
      else bad_span (html_escape (if path = [] then ''?'' else path)))"

text \<open>Drop a suffix of a dash and two characters.\<close>

definition strip_geo :: "string \<Rightarrow> string" where
  "strip_geo rc =
     (if 3 < length rc \<and> rc ! (length rc - 3) = CHR ''-'' then take (length rc - 3) rc else rc)"

definition src_label :: "string \<Rightarrow> string" where
  "src_label rc = (if rc = ''myderp'' then ''vpn2'' else strip_geo rc)"

definition code_to_src :: "string \<Rightarrow> string" where
  "code_to_src rc = (if rc = ''myderp'' then ''collector'' else strip_geo rc)"

definition age_text :: "int \<Rightarrow> string" where
  "age_text age = (if age < 60 then int_str age @ ''s'' else int_str (age div 60) @ ''m'')"

definition ping_row :: "string set \<Rightarrow> int \<Rightarrow> string \<Rightarrow> peer_ping \<Rightarrow> string" where
  "ping_row dead now label p =
     ''<tr><td class='' @ A @ ''src-badge'' @ A @ ''>'' @ html_escape label @ ''</td><td>''
     @ html_escape (pp_hostname p) @ ''</td><td>'' @ html_escape (or_dash (pp_ip p)) @ ''</td>''
     @ ''<td>'' @ ms_text (pp_rtt p) @ ''</td><td>'' @ path_tag dead p @ ''</td>''
     @ ''<td class='' @ A @ ''note'' @ A @ ''>'' @ age_text (now - pp_ts p) @ '' tr&#432;&#7899;c</td></tr>''"

definition no_ping_row :: "string \<Rightarrow> string" where
  "no_ping_row rc =
     ''<tr class='' @ A @ ''off'' @ A @ ''><td class='' @ A @ ''src-badge'' @ A @ ''>''
     @ html_escape (src_label rc) @ ''</td><td colspan='' @ A @ ''5'' @ A @ '' class='' @ A @ ''muted'' @ A @ ''>''
     @ (if code_to_src rc \<noteq> ''collector''
        then ''ch&#432;a c&#243; d&#7919; li&#7879;u &#8212; '' @ ''ping-reporter ch&#432;a ch&#7841;y''
        else ''ch&#432;a c&#243; d&#7919; li&#7879;u'')
     @ ''</td></tr>''"

definition region_rows :: "string set \<Rightarrow> int \<Rightarrow> (string \<times> peer_ping list) list \<Rightarrow> string \<Rightarrow> string" where
  "region_rows dead now pings rc =
     (let ps = dict_list pings (code_to_src rc)
      in if ps \<noteq> [] then concat (map (ping_row dead now (src_label rc)) ps) else no_ping_row rc)"

definition pings_html ::
    "string set \<Rightarrow> int \<Rightarrow> (string \<times> peer_ping list) list \<Rightarrow> string list \<Rightarrow> string" where
  "pings_html dead now pings codes =
     ''<table><thead><tr>''
     @ ''<th>Ngu&#7891;n</th><th>Node</th><th>Tailnet IP</th>''
     @ ''<th>RTT</th><th>Path</th><th>Last ping</th>''
     @ ''</tr></thead><tbody>''
     @ concat (map (region_rows dead now pings) (if codes \<noteq> [] then codes else [''myderp'']))
     @ ''</tbody></table>''
     @ ''<p class='' @ A @ ''note'' @ A @ '' style='' @ A @ ''margin-top:8px'' @ A @ ''>''
     @ ''<b>direct</b> = P2P WireGuard UDP &nbsp;&bull;&nbsp;''
     @ ''<b>via DERP</b> = relay qua DERP server'' @ ''</p>''"

definition render_derp_html ::
    "char \<Rightarrow> probed list \<Rightarrow> relay_peer list \<Rightarrow> int \<Rightarrow> string \<Rightarrow> (string \<times> peer_ping list) list \<Rightarrow> string" where
  "render_derp_html dash regions ps now gen all_pings =
     (let dead = dead_codes regions
      in replace_all ''__ROWS__'' (rows_html dash dead ps)
        (replace_all ''__PINGS__'' (pings_html dead now all_pings (map rg_code regions))
        (replace_all ''__REGIONS__'' (regions_html regions)
        (replace_all ''__GENERATED__'' gen derp_page))))"

subsection \<open>The statistics page\<close>

definition json_of_stat :: "pair_stat \<Rightarrow> json" where
  "json_of_stat p =
     JObj [(''src'', JStr (ps_src p)), (''dst'', JStr (ps_dst p)), (''count'', JInt (int (ps_count p))),
       (''min_ms'', json_of_rtt (ps_min p)), (''avg_ms'', json_of_rtt (ps_avg p)),
       (''max_ms'', json_of_rtt (ps_max p)), (''ok_pct'', JFloat (ps_ok_pct p)),
       (''direct_pct'', JFloat (ps_direct_pct p)), (''last_ms'', json_of_rtt (ps_last_ms p)),
       (''last_path'', JStr (ps_last_path p)), (''last_ts'', JInt (ps_last_ts p))]"

definition json_of_series :: "string \<times> points \<Rightarrow> json" where
  "json_of_series s =
     JObj [(''pair'', JStr (fst s)),
       (''points'', JArr (map (\<lambda>(t, x). JObj [(''t'', JInt t), (''rtt'', JFloat x)]) (snd s)))]"

definition json_of_device :: "device \<Rightarrow> json" where
  "json_of_device d =
     JObj [(''hostname'', JStr (dv_hostname d)),
       (''mac'', (case dv_mac d of None \<Rightarrow> JNull | Some m \<Rightarrow> JStr m)), (''ipv4'', JStr (dv_ipv4 d)),
       (''last_seen'', JInt (dv_last_seen d)), (''seen_count'', JInt (dv_seen_count d))]"

definition render_stats_html ::
    "pair_stat list \<Rightarrow> (string \<times> points) list \<Rightarrow> device list \<Rightarrow> int \<Rightarrow> int \<Rightarrow> string" where
  "render_stats_html pairs series devs window_s now =
     replace_all ''__DATA__''
       (dumps (JObj [(''generated'', JInt now), (''window_min'', JInt (max 1 (window_s div 60))),
         (''pairs'', JArr (map json_of_stat pairs)), (''series'', JArr (map json_of_series series)),
         (''devices'', JArr (map json_of_device devs))]))
       stats_page"

subsection \<open>Properties\<close>

lemma rmap_hostnames: "rmap f xs = Inr ys \<Longrightarrow> list_all2 (\<lambda>x y. f x = Inr y) xs ys"
  by (simp add: rmap_Inr_iff)

text \<open>The peer view has one entry per peer of the status, in order of hostname; anything but an
  object is an empty view.\<close>

theorem peer_view_complete:
  assumes "peer_relay_from_status status = Inr ps"
  shows "sorted (map rp_hostname ps)
    \<and> (case status of
         JObj d \<Rightarrow> \<exists>raw out. status_peers d = Inr raw \<and> list_all2 (\<lambda>x y. relay_peer_of x = Inr y) raw out
           \<and> mset ps = mset out
       | _ \<Rightarrow> ps = [])"
  using assms
  by (auto simp: peer_relay_from_status_def res_simps rmap_Inr_iff split: json.splits)

definition sample_status :: json where
  "sample_status =
     JObj [(''Peer'', JObj [
       (''k1'', JObj [(''DNSName'', JStr ''votam.tail.net.''), (''Online'', JBool True), (''Relay'', JStr ''vpn3-vn'')]),
       (''k2'', JObj [(''HostName'', JStr ''itop''), (''CurAddr'', JStr ''1.2.3.4:5''),
         (''TailscaleIPs'', JArr [JStr ''fd7a::1'', JStr ''100.64.0.7''])])])]"

lemma sample_status_view:
  "peer_relay_from_status sample_status =
     Inr [\<lparr>rp_hostname = ''itop'', rp_ip = ''100.64.0.7'', rp_relay = [], rp_direct = True, rp_online = False\<rparr>,
          \<lparr>rp_hostname = ''votam'', rp_ip = [], rp_relay = ''vpn3-vn'', rp_direct = False, rp_online = True\<rparr>]"
  by code_simp

theorem peer_view_complete_witness:
  "\<exists>ps. peer_relay_from_status sample_status = Inr ps \<and> length ps = 2 \<and> sorted (map rp_hostname ps)"
  using peer_view_complete [OF sample_status_view] by (simp add: sample_status_view)

text \<open>A region code or URL that reads back from the list it is written in.\<close>

definition region_text :: "region \<Rightarrow> string" where
  "region_text r = rg_code r @ ''='' @ rg_url r"

definition plain_region :: "region \<Rightarrow> bool" where
  "plain_region r =
     (strip (rg_code r) = rg_code r \<and> strip (rg_url r) = rg_url r \<and> rg_code r \<noteq> [] \<and> rg_url r \<noteq> []
      \<and> CHR ''='' \<notin> set (rg_code r) \<and> CHR '','' \<notin> set (rg_code r) \<and> CHR '','' \<notin> set (rg_url r))"

lemma split1_char: "c \<notin> set a \<Longrightarrow> split1 [c] (a @ c # b) = (a, Some b)"
  by (induction a) auto

lemma strip_hd_last: "strip s = s \<Longrightarrow> s \<noteq> [] \<Longrightarrow> \<not> is_space (hd s) \<and> \<not> is_space (last s)"
  using strip_ends [of s] by auto

lemma region_text_stripped: "plain_region r \<Longrightarrow> strip (region_text r) = region_text r"
  using strip_hd_last [of "rg_code r"] strip_hd_last [of "rg_url r"]
  by (intro strip_eq_self) (auto simp: plain_region_def region_text_def)

text \<open>The configured list \<open>code=url,code=url\<close> reads back as the regions it was written from.\<close>

theorem derp_regions_roundtrip:
  assumes "rs \<noteq> []" and "list_all plain_region rs"
  shows "parse_derp_regions (join '','' (map region_text rs)) = rs"
proof -
  have "CHR '','' \<notin> set (region_text r)" if "r \<in> set rs" for r
    using that assms(2) by (auto simp: list_all_iff plain_region_def region_text_def)
  then have "split_char (CHR '','') (join '','' (map region_text rs)) = map region_text rs"
    using assms(1) by (intro split_char_join) auto
  moreover have "parse_region (region_text r) = Some r" if "plain_region r" for r
    using that split1_char [of "CHR ''=''" "rg_code r" "rg_url r"] region_text_stripped [OF that]
    by (simp add: parse_region_def region_text_def plain_region_def)
  then have "map parse_region (map region_text rs) = map Some rs"
    using assms(2) by (simp add: list_all_iff)
  then have "somes (map parse_region (map region_text rs)) = rs"
    using somes_map_Some [of "\<lambda>r. r" rs] by (simp only: list.map_ident)
  ultimately show ?thesis by (simp only: parse_derp_regions_def)
qed

definition two_regions :: "region list" where
  "two_regions = [\<lparr>rg_code = ''myderp'', rg_url = ''https://vpn2/derp/probe''\<rparr>,
     \<lparr>rg_code = ''vpn3-vn'', rg_url = ''https://vpn3/derp/probe?x=1''\<rparr>]"

theorem derp_regions_roundtrip_witness:
  "parse_derp_regions ''myderp=https://vpn2/derp/probe,vpn3-vn=https://vpn3/derp/probe?x=1'' = two_regions"
proof -
  have "list_all plain_region two_regions" by code_simp
  moreover have "join '','' (map region_text two_regions)
      = ''myderp=https://vpn2/derp/probe,vpn3-vn=https://vpn3/derp/probe?x=1''" by code_simp
  ultimately show ?thesis using derp_regions_roundtrip [of two_regions] by (simp add: two_regions_def)
qed

text \<open>The number of opening angle brackets of a text: how many tags it can start.\<close>

definition tags :: "string \<Rightarrow> nat" where
  "tags s = length (filter (\<lambda>c. c = CHR ''<'') s)"

lemma tags_append [simp]: "tags (a @ b) = tags a + tags b"
  by (simp add: tags_def)

lemma tags_Cons [simp]: "tags (c # s) = (if c = CHR ''<'' then 1 else 0) + tags s"
  by (simp add: tags_def)

lemma tags_Nil [simp]: "tags [] = 0"
  by (simp add: tags_def)

lemma tags_absent: "CHR ''<'' \<notin> set s \<Longrightarrow> tags s = 0"
  by (auto simp: tags_def filter_empty_conv)

lemma tags_escape [simp]: "tags (html_escape s) = 0"
  by (induction s) (auto simp: html_escape_def escape_char_def)

lemma lt_not_digit: "CHR ''<'' \<notin> set (nat_digits n)"
  using nat_digits_digits [of "CHR ''<''" n] by (auto simp: is_digit_def)

lemma tags_int_str [simp]: "tags (int_str i) = 0"
  by (rule tags_absent) (auto simp: int_str_def lt_not_digit)

lemma tags_float_repr [simp]: "tags (float_repr x) = 0"
proof -
  have "CHR ''<'' \<notin> set (rstrip_char (CHR ''0'') (nat_digits n))" for n
    using lt_not_digit [of n] by (auto simp: rstrip_char_def dest: set_dropWhileD)
  then have "CHR ''<'' \<notin> set (pos_repr a)" for a
    unfolding pos_repr_def
    by (auto simp: Let_def lt_not_digit split: prod.splits dest: in_set_takeD in_set_dropD)
  then show ?thesis by (cases x) (auto intro!: tags_absent)
qed

lemma tags_Q_A [simp]: "tags Q = 0" "tags A = 0"
  by (simp_all add: Q_def A_def)

lemma tags_ms_text [simp]: "tags (ms_text x) = 0"
  by (simp add: ms_text_def split: option.split)

lemma tags_via_tag: "tags (via_tag dead p) = 2"
  by (simp add: via_tag_def tag_def bad_span_def Let_def)

lemma tags_path_tag: "tags (path_tag dead p) = 2"
  by (simp add: path_tag_def tag_def bad_span_def Let_def)

text \<open>C40: Nothing a node or a region reports can start a tag of the DERP page: every row and card has a
  fixed number of opening brackets, whatever the hostnames, addresses, paths, URLs and errors are.\<close>

theorem derp_cells_escaped:
  "tags (peer_row dead p) = 14 \<and> tags (ping_row dead now rc q) = 16
   \<and> tags (no_ping_row rc) = 6
   \<and> tags (rcard r) = (case pb_error r of None \<Rightarrow> 10 | Some e \<Rightarrow> if e = [] then 10 else 12)"
proof (intro conjI)
  show "tags (peer_row dead p) = 14" by (simp add: peer_row_def tags_via_tag)
  show "tags (ping_row dead now rc q) = 16" by (simp add: ping_row_def tags_path_tag age_text_def)
  show "tags (no_ping_row rc) = 6" by (simp add: no_ping_row_def)
  show "tags (rcard r) = (case pb_error r of None \<Rightarrow> 10 | Some e \<Rightarrow> if e = [] then 10 else 12)"
    by (simp add: rcard_def Let_def split: option.split)
qed

subsection \<open>The page as a whole\<close>

text \<open>An occurrence of \<open>old\<close> cannot cross a character it does not contain.\<close>

lemma starts_with_barrier:
  "c \<notin> set old \<Longrightarrow> starts_with old (a @ c # b) \<longleftrightarrow> starts_with old a"
proof (induction old arbitrary: a)
  case (Cons x old)
  then show ?case by (cases a) auto
qed simp

lemma replace_all_barrier:
  "c \<notin> set old \<Longrightarrow>
   replace_all old new (a @ c # b) = replace_all old new a @ c # replace_all old new b"
proof (induction "length a" arbitrary: a rule: less_induct)
  case less
  show ?case
  proof (cases a)
    case Nil
    have "\<not> (old \<noteq> [] \<and> starts_with old (c # b))"
      using less.prems by (cases old) auto
    with Nil show ?thesis by auto
  next
    case (Cons x t)
    show ?thesis
    proof (cases "old \<noteq> [] \<and> starts_with old a")
      case True
      then obtain u where u: "a = old @ u" by (auto simp: starts_with_iff)
      have "replace_all old new (u @ c # b) = replace_all old new u @ c # replace_all old new b"
        by (rule less.hyps) (use u True less.prems in auto)
      with True u Cons show ?thesis by (cases old) auto
    next
      case False
      then have "\<not> (old \<noteq> [] \<and> starts_with old (a @ c # b))"
        using starts_with_barrier [OF less.prems] by blast
      with False Cons less.hyps [of t] less.prems show ?thesis by auto
    qed
  qed
qed

lemma contains_barrier:
  "old \<noteq> [] \<Longrightarrow> c \<notin> set old \<Longrightarrow> contains old (a @ c # b) \<longleftrightarrow> contains old a \<or> contains old b"
proof (induction a)
  case Nil
  then show ?case by (cases old) auto
next
  case (Cons x a)
  with starts_with_barrier [of c old "x # a" b] show ?case by auto
qed

text \<open>A text without \<open>old\<close> whose two ends no occurrence of \<open>old\<close> can cross.\<close>

definition walled :: "string \<Rightarrow> string \<Rightarrow> bool" where
  "walled old a = (old \<noteq> [] \<and> a \<noteq> [] \<and> hd a \<notin> set old \<and> last a \<notin> set old \<and> \<not> contains old a)"

lemma walled_ends:
  assumes "walled old a"
  obtains c s where "a = c # s" "c \<notin> set old" "\<not> contains old s"
proof (cases a)
  case (Cons c s)
  with assms show ?thesis using that contains_barrier [of old c "[]" s] by (auto simp: walled_def)
qed (use assms in \<open>simp add: walled_def\<close>)

lemma walled_last:
  assumes "walled old a"
  obtains c s where "a = s @ [c]" "c \<notin> set old" "\<not> contains old s"
proof (cases a rule: rev_cases)
  case (snoc s c)
  with assms show ?thesis using that contains_barrier [of old c s "[]"] by (auto simp: walled_def)
qed (use assms in \<open>simp add: walled_def\<close>)

lemma contains_walled:
  assumes "walled old a" "walled old b"
  shows "contains old (a @ x @ b) \<longleftrightarrow> contains old x"
proof -
  obtain c s where a: "a = s @ [c]" "c \<notin> set old" "\<not> contains old s" using assms(1) by (rule walled_last)
  obtain d t where b: "b = d # t" "d \<notin> set old" "\<not> contains old t" using assms(2) by (rule walled_ends)
  have "old \<noteq> []" using assms(1) by (simp add: walled_def)
  with a b show ?thesis
    using contains_barrier [of old c s "x @ b"] contains_barrier [of old d x t] by simp
qed

lemma walled_hole:
  "walled old a \<Longrightarrow> walled old b \<Longrightarrow> \<not> contains old x \<Longrightarrow> walled old (a @ x @ b)"
  using contains_walled [of old a b x] by (auto simp: walled_def)

lemma replace_all_walled:
  assumes "walled old a" "walled old b"
  shows "replace_all old new (a @ old @ b) = a @ new @ b"
proof -
  obtain c s where a: "a = s @ [c]" "c \<notin> set old" "\<not> contains old s" using assms(1) by (rule walled_last)
  obtain d t where b: "b = d # t" "d \<notin> set old" "\<not> contains old t" using assms(2) by (rule walled_ends)
  have "replace_all old new old = new" using assms(1) by (cases old) (auto simp: walled_def)
  with a b show ?thesis
    using replace_all_barrier [of c old new s "old @ b"] replace_all_barrier [of d old new old t]
    by (simp add: replace_all_absent)
qed

definition derp_holes :: "string set" where
  "derp_holes = {''__GENERATED__'', ''__REGIONS__'', ''__PINGS__'', ''__ROWS__''}"

lemma absent_hd: "hd h \<notin> set s \<Longrightarrow> h \<noteq> [] \<Longrightarrow> \<not> contains h s"
  by (cases h) (auto simp: contains_iff)

lemma walled_part:
  assumes "CHR ''_'' \<notin> set p" "p \<noteq> []" "{hd p, last p} \<subseteq> {CHR '' '', CHR ''<'', CHR ''>'', NL}"
    and "h \<in> derp_holes"
  shows "walled h p"
proof -
  have "h \<noteq> [] \<and> hd h = CHR ''_'' \<and> set h \<inter> {CHR '' '', CHR ''<'', CHR ''>'', NL} = {}"
    using assms(4) unfolding derp_holes_def by (elim insertE emptyE) (simp_all add: NL_def)
  with assms absent_hd [of h p] show ?thesis unfolding walled_def by auto
qed

lemma hd_join: "hd ls \<noteq> [] \<Longrightarrow> ls \<noteq> [] \<Longrightarrow> hd (join sep ls) = hd (hd ls)"
  by (cases ls; cases "tl ls") auto

lemma hd_join_empty: "sep \<noteq> [] \<Longrightarrow> hd (join sep ([] # l # ls)) = hd sep"
  by simp

lemma join_not_Nil: "ls \<noteq> [] \<Longrightarrow> last ls \<noteq> [] \<Longrightarrow> join sep ls \<noteq> []"
  by (induction sep ls rule: join.induct) auto

lemma last_join: "ls \<noteq> [] \<Longrightarrow> last ls \<noteq> [] \<Longrightarrow> last (join sep ls) = last (last ls)"
proof (induction sep ls rule: join.induct)
  case (3 sep s t ss)
  have "join sep (t # ss) \<noteq> []" by (rule join_not_Nil) (use "3.prems" in auto)
  with 3 show ?case by simp
qed simp_all

lemmas join_ends = hd_join hd_join_empty last_join join_not_Nil

lemma derp_part_ends:
  "{hd derp_part1, last derp_part1} \<subseteq> {CHR '' '', CHR ''<'', CHR ''>'', NL} \<and> derp_part1 \<noteq> []"
  "{hd derp_part2, last derp_part2} \<subseteq> {CHR '' '', CHR ''<'', CHR ''>'', NL} \<and> derp_part2 \<noteq> []"
  "{hd derp_part3, last derp_part3} \<subseteq> {CHR '' '', CHR ''<'', CHR ''>'', NL} \<and> derp_part3 \<noteq> []"
  "{hd derp_part4, last derp_part4} \<subseteq> {CHR '' '', CHR ''<'', CHR ''>'', NL} \<and> derp_part4 \<noteq> []"
  "{hd derp_part5, last derp_part5} \<subseteq> {CHR '' '', CHR ''<'', CHR ''>'', NL} \<and> derp_part5 \<noteq> []"
  unfolding derp_part1_def derp_part2_def derp_part3_def derp_part4_def derp_part5_def
  by (simp_all add: join_ends del: join.simps)

lemma derp_walled:
  assumes "h \<in> derp_holes"
  shows "walled h derp_part1 \<and> walled h derp_part2 \<and> walled h derp_part3 \<and> walled h derp_part4
    \<and> walled h derp_part5"
  using walled_part [OF derp_parts_plain(1) conjunct2 [OF derp_part_ends(1)] conjunct1 [OF derp_part_ends(1)] assms]
    walled_part [OF derp_parts_plain(2) conjunct2 [OF derp_part_ends(2)] conjunct1 [OF derp_part_ends(2)] assms]
    walled_part [OF derp_parts_plain(3) conjunct2 [OF derp_part_ends(3)] conjunct1 [OF derp_part_ends(3)] assms]
    walled_part [OF derp_parts_plain(4) conjunct2 [OF derp_part_ends(4)] conjunct1 [OF derp_part_ends(4)] assms]
    walled_part [OF derp_parts_plain(5) conjunct2 [OF derp_part_ends(5)] conjunct1 [OF derp_part_ends(5)] assms]
  by (intro conjI)

text \<open>Filling the placeholders of a template one after the other.\<close>

lemma fill_four:
  assumes w: "\<And>h p. h \<in> {g, r, q, w} \<Longrightarrow> p \<in> {p1, p2, p3, p4, p5} \<Longrightarrow> walled h p"
    and d: "\<not> contains g r" "\<not> contains g q" "\<not> contains g w" "\<not> contains r q" "\<not> contains r w" "\<not> contains q w"
    and G: "\<not> contains r G" "\<not> contains q G" "\<not> contains w G"
    and R: "\<not> contains q R" "\<not> contains w R" and P: "\<not> contains w P"
  shows "replace_all w W (replace_all q P (replace_all r R (replace_all g G
      (p1 @ g @ p2 @ r @ p3 @ q @ p4 @ w @ p5)))) = p1 @ G @ p2 @ R @ p3 @ P @ p4 @ W @ p5"
proof -
  have "replace_all g G (p1 @ g @ (p2 @ r @ p3 @ q @ p4 @ w @ p5))
      = p1 @ G @ (p2 @ r @ p3 @ q @ p4 @ w @ p5)"
    by (intro replace_all_walled walled_hole w d) simp_all
  moreover have "replace_all r R ((p1 @ G @ p2) @ r @ (p3 @ q @ p4 @ w @ p5))
      = (p1 @ G @ p2) @ R @ (p3 @ q @ p4 @ w @ p5)"
    by (intro replace_all_walled walled_hole w d G) simp_all
  moreover have "replace_all q P (((p1 @ G @ p2) @ R @ p3) @ q @ (p4 @ w @ p5))
      = ((p1 @ G @ p2) @ R @ p3) @ P @ (p4 @ w @ p5)"
    by (intro replace_all_walled walled_hole w d G R) simp_all
  moreover have "replace_all w W ((((p1 @ G @ p2) @ R @ p3) @ P @ p4) @ w @ p5)
      = (((p1 @ G @ p2) @ R @ p3) @ P @ p4) @ W @ p5"
    by (intro replace_all_walled walled_hole w d G R P) simp_all
  ultimately show ?thesis by simp
qed

text \<open>As long as no text that goes into the DERP page contains one of the placeholders filled after it,
  the page is the template with the four sections in their places.\<close>

theorem derp_page_layout:
  assumes "\<not> contains ''__REGIONS__'' gen" "\<not> contains ''__PINGS__'' gen" "\<not> contains ''__ROWS__'' gen"
    and "\<not> contains ''__PINGS__'' (regions_html regions)" "\<not> contains ''__ROWS__'' (regions_html regions)"
    and "\<not> contains ''__ROWS__'' (pings_html (dead_codes regions) now all_pings (map rg_code regions))"
  shows "render_derp_html dash regions ps now gen all_pings =
     derp_part1 @ gen @ derp_part2 @ regions_html regions @ derp_part3
     @ pings_html (dead_codes regions) now all_pings (map rg_code regions) @ derp_part4
     @ rows_html dash (dead_codes regions) ps @ derp_part5"
  unfolding render_derp_html_def Let_def derp_page_def
proof (rule fill_four)
  fix h p :: string
  assume "h \<in> {''__GENERATED__'', ''__REGIONS__'', ''__PINGS__'', ''__ROWS__''}"
    "p \<in> {derp_part1, derp_part2, derp_part3, derp_part4, derp_part5}"
  then show "walled h p" using derp_walled [of h] unfolding derp_holes_def by blast
qed (use assms in simp_all)

theorem derp_page_layout_witness:
  "render_derp_html CHR ''-'' [] [] 9 ''12:00:00'' [] =
     derp_part1 @ ''12:00:00'' @ derp_part2 @ regions_html [] @ derp_part3
     @ pings_html {} 9 [] [] @ derp_part4 @ rows_html CHR ''-'' {} [] @ derp_part5"
proof -
  have "dead_codes [] = {}" by (simp add: dead_codes_def)
  moreover have "\<not> contains ''__REGIONS__'' ''12:00:00''" "\<not> contains ''__PINGS__'' ''12:00:00''"
    "\<not> contains ''__ROWS__'' ''12:00:00''" "\<not> contains ''__PINGS__'' (regions_html [])"
    "\<not> contains ''__ROWS__'' (regions_html [])" "\<not> contains ''__ROWS__'' (pings_html {} 9 [] [])"
    by (simp_all add: regions_html_def pings_html_def region_rows_def dict_list_def no_ping_row_def
        Q_def A_def html_escape_def escape_char_def src_label_def code_to_src_def)
  ultimately show ?thesis using derp_page_layout [of "''12:00:00''" "[]" 9 "[]" "CHR ''-''" "[]"] by simp
qed

definition stats_data ::
    "pair_stat list \<Rightarrow> (string \<times> points) list \<Rightarrow> device list \<Rightarrow> int \<Rightarrow> int \<Rightarrow> json" where
  "stats_data pairs series devs window_s now =
     JObj [(''generated'', JInt now), (''window_min'', JInt (max 1 (window_s div 60))),
       (''pairs'', JArr (map json_of_stat pairs)), (''series'', JArr (map json_of_series series)),
       (''devices'', JArr (map json_of_device devs))]"

lemma stats_part_ends:
  "last stats_part1 = CHR '' '' \<and> stats_part1 \<noteq> []" "hd stats_part2 = CHR '';'' \<and> stats_part2 \<noteq> []"
  "last stats_part2 = CHR ''>''" "hd stats_part1 = CHR ''<''"
  unfolding stats_part1_def stats_part2_def
  by (simp_all only: join_ends last.simps list.sel list.distinct if_True if_False simp_thms)

lemma stats_page_filled:
  "render_stats_html pairs series devs window_s now =
     stats_part1 @ dumps (stats_data pairs series devs window_s now) @ stats_part2"
proof -
  have "walled ''__DATA__'' stats_part1" "walled ''__DATA__'' stats_part2"
    using stats_part1_plain stats_part2_plain stats_part_ends by (simp_all add: walled_def)
  then show ?thesis unfolding render_stats_html_def stats_page_def stats_data_def
    by (rule replace_all_walled)
qed

lemma dumps_plain:
  "list_all (\<lambda>c. c \<noteq> CHR 0x22 \<and> c \<noteq> CHR 0x5C \<and> 32 \<le> code c \<and> code c \<le> 126) s \<Longrightarrow>
   dumps_str s = CHR 0x22 # s @ [CHR 0x22]"
proof -
  assume s: "list_all (\<lambda>c. c \<noteq> CHR 0x22 \<and> c \<noteq> CHR 0x5C \<and> 32 \<le> code c \<and> code c \<le> 126) s"
  have "dumps_char c = [c]" if "c \<noteq> CHR 0x22" "c \<noteq> CHR 0x5C" "32 \<le> code c" "code c \<le> 126" for c
    using that by (auto simp: dumps_char_def NL_def)
  then have "concat (map dumps_char s) = s" using s by (induction s) auto
  then show ?thesis by (simp add: dumps_str_def)
qed

lemma contains_refl: "contains p p"
  unfolding contains_iff by (intro exI [of _ "[]"]) simp

lemma contains_append: "contains p s \<Longrightarrow> contains p (a @ s @ b)"
  unfolding contains_iff by (metis append.assoc)

lemma contains_join: "s \<in> set ss \<Longrightarrow> contains p s \<Longrightarrow> contains p (join sep ss)"
proof (induction sep ss rule: join.induct)
  case (3 sep s' t ss)
  then show ?case
    using contains_append [of p s' "[]" "sep @ join sep (t # ss)"]
      contains_append [of p "join sep (t # ss)" "s' @ sep" "[]"] by auto
qed auto

lemma dumps_member: "v \<in> set xs \<Longrightarrow> contains p (dumps v) \<Longrightarrow> contains p (dumps (JArr xs))"
  using contains_append [OF contains_join [of "dumps v" "map dumps xs" p "'', ''"], of "''[''" "'']''"] by auto

lemma dumps_item: "(k, v) \<in> set d \<Longrightarrow> contains p (dumps v) \<Longrightarrow> contains p (dumps (JObj d))"
proof -
  assume h: "(k, v) \<in> set d" "contains p (dumps v)"
  let ?f = "\<lambda>(k, v). dumps_str k @ '': '' @ dumps v"
  have "contains p (?f (k, v))" using contains_append [OF h(2), of "dumps_str k @ '': ''" "[]"] by simp
  moreover have "?f (k, v) \<in> set (map ?f d)" using h(1) by force
  ultimately have "contains p (join '', '' (map ?f d))" using contains_join by blast
  then show ?thesis using contains_append [of p _ "''{''" "''}''"] by simp
qed

text \<open>The statistics page is the template with the JSON of the data in its script, and a reported
  hostname of printable characters other than quote and backslash stands in it verbatim, so also
  one that closes the script element.\<close>

theorem stats_page_verbatim:
  assumes "d \<in> set devs"
    and "list_all (\<lambda>c. c \<noteq> CHR 0x22 \<and> c \<noteq> CHR 0x5C \<and> 32 \<le> code c \<and> code c \<le> 126) (dv_hostname d)"
  shows "render_stats_html pairs series devs window_s now =
      stats_part1 @ dumps (stats_data pairs series devs window_s now) @ stats_part2
    \<and> contains (dv_hostname d) (dumps (stats_data pairs series devs window_s now))"
proof
  have "contains (dv_hostname d) (dumps (JStr (dv_hostname d)))"
    using dumps_plain [OF assms(2)] contains_append [OF contains_refl, of "dv_hostname d" "[CHR 0x22]" "[CHR 0x22]"]
    by simp
  then have "contains (dv_hostname d) (dumps (json_of_device d))"
    unfolding json_of_device_def
    by (rule dumps_item [of "''hostname''" "JStr (dv_hostname d)", rotated]) simp
  then have "contains (dv_hostname d) (dumps (JArr (map json_of_device devs)))"
    by (rule dumps_member [rotated]) (use assms(1) in simp)
  then show "contains (dv_hostname d) (dumps (stats_data pairs series devs window_s now))"
    unfolding stats_data_def by (rule dumps_item [of "''devices''", rotated]) simp
qed (rule stats_page_filled)

definition evil_device :: device where
  "evil_device = \<lparr>dv_user = ''u'', dv_hostname = ''</script>'', dv_mac = None, dv_node_id = ''1'',
     dv_ipv4 = [], dv_machine_key = [], dv_first_seen = 0, dv_last_seen = 0, dv_seen_count = 1\<rparr>"

theorem stats_page_verbatim_witness:
  "contains ''</script>'' (dumps (stats_data [] [] [evil_device] 3600 0))"
  using stats_page_verbatim [of evil_device "[evil_device]" "[]" "[]" 3600 0]
  by (simp add: evil_device_def)

end
