(* ===== verification/TailnetAuth.thy ===== *)
theory TailnetAuth
  imports PyJson "HOL-Library.Word"
begin

unbundle bit_operations_syntax

text \<open>
  Who may post to the collector: \<open>is_tailnet_ip\<close> and \<open>is_allowed_report_src\<close> of
  \<open>node-dedup/dedup.py\<close>, with the address parser of Python 3.12's \<open>ipaddress\<close> they rest on.
  Addresses are 32 and 128 bit words.
\<close>

subsection \<open>IPv4\<close>

definition parse_octet :: "string \<Rightarrow> nat option" where
  "parse_octet s =
     (if s = [] \<or> \<not> list_all is_digit s \<or> 3 < length s \<or> (s \<noteq> ''0'' \<and> hd s = CHR ''0'')
         \<or> 255 < digits_val s
      then None else Some (digits_val s))"

definition octets_val :: "nat list \<Rightarrow> nat" where
  "octets_val os = foldl (\<lambda>v b. v * 256 + b) 0 os"

definition parse_ipv4 :: "string \<Rightarrow> 32 word option" where
  "parse_ipv4 s =
     (let octets = split_char (CHR ''.'') s in
      if length octets \<noteq> 4 then None
      else map_option (\<lambda>os. of_nat (octets_val os)) (those (map parse_octet octets)))"

subsection \<open>IPv6\<close>

definition parse_hextet :: "string \<Rightarrow> nat option" where
  "parse_hextet s =
     (if s = [] \<or> \<not> list_all is_hex s \<or> 4 < length s then None
      else Some (foldl (\<lambda>v c. v * 16 + hex_val c) 0 s))"

fun hex_str :: "nat \<Rightarrow> string" where
  "hex_str n = (if n < 16 then [hex_digit n] else hex_str (n div 16) @ [hex_digit (n mod 16)])"

declare hex_str.simps [simp del]

text \<open>A dotted last part is replaced by its two hextets.\<close>

definition expand_v4_tail :: "string list \<Rightarrow> string list option" where
  "expand_v4_tail parts =
     (if CHR ''.'' \<in> set (last parts)
      then map_option (\<lambda>w. butlast parts @
             [hex_str (unat (drop_bit 16 w AND 0xFFFF)), hex_str (unat (w AND 0xFFFF))])
           (parse_ipv4 (last parts))
      else Some parts)"

text \<open>How many parts stand before and after \<open>::\<close>, and how many zero hextets it stands for.\<close>

definition v6_layout :: "string list \<Rightarrow> (nat \<times> nat \<times> nat) option" where
  "v6_layout parts =
     (let n = length parts in
      case filter (\<lambda>i. parts ! i = []) [1..<n - 1] of
        [] \<Rightarrow> if n \<noteq> 8 \<or> hd parts = [] \<or> last parts = [] then None else Some (n, 0, 0)
      | [k] \<Rightarrow>
          let hi = (if hd parts = [] then k - 1 else k);
              lo = (if last parts = [] then n - k - 2 else n - k - 1) in
          if (hd parts = [] \<and> hi \<noteq> 0) \<or> (last parts = [] \<and> lo \<noteq> 0) \<or> 8 < hi + lo + 1
          then None else Some (hi, 8 - (hi + lo), lo)
      | _ \<Rightarrow> None)"

definition push_hextets :: "nat list \<Rightarrow> 128 word \<Rightarrow> 128 word" where
  "push_hextets hs w = foldl (\<lambda>v h. push_bit 16 v OR of_nat h) w hs"

definition parse_hextets :: "string list \<Rightarrow> 128 word option" where
  "parse_hextets parts =
     Option.bind (v6_layout parts) (\<lambda>(hi, skipped, lo).
     Option.bind (those (map parse_hextet (take hi parts))) (\<lambda>hs.
     Option.bind (those (map parse_hextet (drop (length parts - lo) parts))) (\<lambda>ls.
     Some (push_hextets ls (push_bit (16 * skipped) (push_hextets hs 0))))))"

definition parse_v6_body :: "string \<Rightarrow> 128 word option" where
  "parse_v6_body s =
     (let parts = split_char (CHR '':'') s in
      if length parts < 3 then None
      else Option.bind (expand_v4_tail parts) (\<lambda>ps. if 9 < length ps then None else parse_hextets ps))"

text \<open>\<open>addr%scope\<close>: a scope, if there is one, is neither empty nor contains \<open>%\<close>.\<close>

definition parse_ipv6 :: "string \<Rightarrow> 128 word option" where
  "parse_ipv6 s =
     (if CHR ''/'' \<in> set s then None
      else case split1 ''%'' s of
        (a, None) \<Rightarrow> parse_v6_body a
      | (a, Some scope) \<Rightarrow> if scope = [] \<or> CHR ''%'' \<in> set scope then None else parse_v6_body a)"

datatype ipaddr = V4 "32 word" | V6 "128 word"

text \<open>\<open>ipaddress.ip_address\<close>; \<open>None\<close> is its \<open>ValueError\<close>.\<close>

definition ip_address :: "string \<Rightarrow> ipaddr option" where
  "ip_address s =
     (case parse_ipv4 s of
        Some w \<Rightarrow> Some (V4 w)
      | None \<Rightarrow> map_option V6 (parse_ipv6 s))"

subsection \<open>Networks\<close>

type_synonym 'a net = "'a word \<times> nat"

definition in_net :: "'a::len word \<Rightarrow> 'a net \<Rightarrow> bool" where
  "in_net w net =
     (case net of (base, p) \<Rightarrow> w AND push_bit (LENGTH('a) - p) (mask p) = base)"

definition v4_net :: "nat \<Rightarrow> nat \<Rightarrow> nat \<Rightarrow> 32 net" where
  "v4_net a b p = (of_nat (octets_val [a, b, 0, 0]), p)"

definition tailnet_v4 :: "32 net" where "tailnet_v4 = v4_net 100 64 10"

definition loopback_v4 :: "32 net" where "loopback_v4 = v4_net 127 0 8"

definition tailnet_v6 :: "128 net" where
  "tailnet_v6 = (push_bit 80 0xFD7A115CA1E0, 48)"

definition priv_v4 :: "32 net list" where
  "priv_v4 = [v4_net 10 0 8, v4_net 172 16 12, v4_net 192 168 16]"

fun is_loopback :: "ipaddr \<Rightarrow> bool" where
  "is_loopback (V4 w) = in_net w loopback_v4"
| "is_loopback (V6 w) = (w = 1)"

definition is_tailnet_ip :: "string \<Rightarrow> bool" where
  "is_tailnet_ip ip =
     (case ip_address ip of
        None \<Rightarrow> False
      | Some a \<Rightarrow>
          if is_loopback a then True
          else (case a of V4 w \<Rightarrow> in_net w tailnet_v4 | V6 w \<Rightarrow> in_net w tailnet_v6))"

definition is_allowed_report_src :: "string \<Rightarrow> bool" where
  "is_allowed_report_src ip =
     (if is_tailnet_ip ip then True
      else case ip_address ip of
        None \<Rightarrow> False
      | Some a \<Rightarrow> (case a of V4 w \<Rightarrow> list_ex (in_net w) priv_v4 | V6 w \<Rightarrow> False))"

subsection \<open>Which texts are IPv4 addresses\<close>

definition dotted :: "nat \<Rightarrow> nat \<Rightarrow> nat \<Rightarrow> nat \<Rightarrow> string" where
  "dotted a b c d = join ''.'' (map nat_digits [a, b, c, d])"

lemma digit_char_val: "is_digit c \<Longrightarrow> char_of (48 + digit_val c) = c \<and> digit_val c < 10"
  by (auto simp: is_digit_def digit_val_def Let_def)

lemma nat_digits_0: "nat_digits 0 = ''0''"
  by code_simp

lemma nat_digits_digits_val:
  "s \<noteq> [] \<Longrightarrow> list_all is_digit s \<Longrightarrow> s = ''0'' \<or> hd s \<noteq> CHR ''0'' \<Longrightarrow> nat_digits (digits_val s) = s"
proof (induction s rule: rev_induct)
  case (snoc c t)
  have c: "char_of (48 + digit_val c) = c" "digit_val c < 10"
    using digit_char_val [of c] snoc.prems by auto
  show ?case
  proof (cases "t = []")
    case True
    with c show ?thesis by (simp add: digits_val_def nat_digits.simps)
  next
    case False
    then have "hd t \<noteq> CHR ''0''" using snoc.prems by auto
    then have t: "nat_digits (digits_val t) = t" using snoc False by auto
    have "digits_val t \<noteq> 0"
    proof
      assume "digits_val t = 0"
      with t have "t = ''0''" by (simp add: nat_digits_0)
      with \<open>hd t \<noteq> CHR ''0''\<close> show False by simp
    qed
    with c t show ?thesis
      by (subst nat_digits.simps) (simp add: digits_val_snoc)
  qed
qed simp

lemma digit_char_nonzero: "n < 10 \<Longrightarrow> n \<noteq> 0 \<Longrightarrow> char_of (48 + n) \<noteq> CHR ''0''" for n :: nat
proof
  assume "n < 10" "n \<noteq> 0" "char_of (48 + n) = CHR ''0''"
  then have "digit_val CHR ''0'' = n" using digit_char [of n] by simp
  with \<open>n \<noteq> 0\<close> show False by (simp add: digit_val_def)
qed

lemma nat_digits_octet:
  assumes "n \<le> 255"
  shows "length (nat_digits n) \<le> 3 \<and> (nat_digits n = ''0'' \<or> hd (nat_digits n) \<noteq> CHR ''0'')"
proof -
  consider "n < 10" | "10 \<le> n" "n < 100" | "100 \<le> n" by linarith
  then show ?thesis
  proof cases
    case 1
    then show ?thesis
      by (cases "n = 0") (auto simp: nat_digits_0 nat_digits.simps [of n] digit_char_nonzero)
  next
    case 2
    then have "n div 10 < 10" "n div 10 \<noteq> 0" by auto
    with 2 show ?thesis
      by (auto simp: nat_digits.simps [of n] nat_digits.simps [of "n div 10"] digit_char_nonzero)
  next
    case 3
    with assms have h: "n div 10 div 10 < 10" "n div 10 div 10 \<noteq> 0" "\<not> n div 10 < 10" by auto
    with 3 show ?thesis
      by (auto simp: nat_digits.simps [of n] nat_digits.simps [of "n div 10"]
          nat_digits.simps [of "n div 10 div 10"] digit_char_nonzero)
  qed
qed

lemma parse_octet_iff: "parse_octet s = Some n \<longleftrightarrow> n \<le> 255 \<and> s = nat_digits n"
proof
  assume "parse_octet s = Some n"
  then show "n \<le> 255 \<and> s = nat_digits n"
    using nat_digits_digits_val [of s] by (auto simp: parse_octet_def split: if_splits)
next
  assume n: "n \<le> 255 \<and> s = nat_digits n"
  have "list_all is_digit (nat_digits n)" using nat_digits_digits [of _ n] by (simp add: list_all_iff)
  with n nat_digits_octet [of n] show "parse_octet s = Some n"
    by (auto simp: parse_octet_def digits_val_nat_digits)
qed

lemma those_map_iff: "those (map f xs) = Some ys \<longleftrightarrow> list_all2 (\<lambda>x y. f x = Some y) xs ys"
proof (induction xs arbitrary: ys)
  case (Cons x xs)
  then show ?case
    by (cases ys) (auto simp: list_all2_Cons1 split: option.splits)
qed auto

lemma dot_not_digit: "CHR ''.'' \<notin> set (nat_digits n)"
  using nat_digits_digits [of "CHR ''.''" n] by (auto simp: is_digit_def)

lemma split_dotted: "split_char (CHR ''.'') (dotted a b c d) = map nat_digits [a, b, c, d]"
  unfolding dotted_def by (rule split_char_join) (auto simp: dot_not_digit)

lemma parse_ipv4_iff:
  "parse_ipv4 s = Some w \<longleftrightarrow>
   (\<exists>a b c d. a \<le> 255 \<and> b \<le> 255 \<and> c \<le> 255 \<and> d \<le> 255 \<and> s = dotted a b c d
      \<and> w = of_nat (octets_val [a, b, c, d]))"
proof
  assume "parse_ipv4 s = Some w"
  then obtain os where l: "length (split_char (CHR ''.'') s) = 4"
    and os: "list_all2 (\<lambda>x y. parse_octet x = Some y) (split_char (CHR ''.'') s) os"
    and w: "w = of_nat (octets_val os)"
    by (auto simp: parse_ipv4_def Let_def those_map_iff split: if_splits)
  from l os have "length os = 4" by (metis list_all2_lengthD)
  then obtain a b c d where abcd: "os = [a, b, c, d]"
    by (auto simp: numeral_eq_Suc length_Suc_conv)
  with os have "split_char (CHR ''.'') s = map nat_digits [a, b, c, d]"
    "a \<le> 255 \<and> b \<le> 255 \<and> c \<le> 255 \<and> d \<le> 255"
    by (auto simp: list_all2_Cons2 parse_octet_iff)
  then show "\<exists>a b c d. a \<le> 255 \<and> b \<le> 255 \<and> c \<le> 255 \<and> d \<le> 255 \<and> s = dotted a b c d
      \<and> w = of_nat (octets_val [a, b, c, d])"
    using w abcd join_split_char [of "CHR ''.''" s] by (metis dotted_def)
next
  assume "\<exists>a b c d. a \<le> 255 \<and> b \<le> 255 \<and> c \<le> 255 \<and> d \<le> 255 \<and> s = dotted a b c d
      \<and> w = of_nat (octets_val [a, b, c, d])"
  then obtain a b c d where h: "a \<le> 255" "b \<le> 255" "c \<le> 255" "d \<le> 255" "s = dotted a b c d"
    "w = of_nat (octets_val [a, b, c, d])" by blast
  then have "parse_octet (nat_digits x) = Some x" if "x \<in> {a, b, c, d}" for x
    using that by (auto simp: parse_octet_iff)
  then show "parse_ipv4 s = Some w"
    using h by (simp add: parse_ipv4_def split_dotted)
qed

subsection \<open>Which addresses a network holds\<close>

lemma and_high_mask:
  fixes w :: "'a::len word"
  assumes "p \<le> LENGTH('a)"
  shows "w AND push_bit (LENGTH('a) - p) (mask p)
    = push_bit (LENGTH('a) - p) (drop_bit (LENGTH('a) - p) w)"
  using assms by (intro bit_word_eqI) (auto simp: bit_simps)

lemma in_net_of_nat:
  assumes "m < 2 ^ LENGTH('a::len)" "n < 2 ^ LENGTH('a)" "p \<le> LENGTH('a)"
    "2 ^ (LENGTH('a) - p) dvd n"
  shows "in_net (of_nat m :: 'a word) (of_nat n, p)
    \<longleftrightarrow> m div 2 ^ (LENGTH('a) - p) = n div 2 ^ (LENGTH('a) - p)"
proof -
  let ?k = "LENGTH('a) - p"
  have "m div 2 ^ ?k * 2 ^ ?k < 2 ^ LENGTH('a)"
    using assms(1) by (metis div_times_less_eq_dividend order_le_less_trans)
  then have "unat (push_bit ?k (drop_bit ?k (of_nat m :: 'a word))) = m div 2 ^ ?k * 2 ^ ?k"
    using assms(1)
    by (simp only: unsigned_push_bit_eq unsigned_drop_bit_eq unsigned_of_nat take_bit_nat_eq_self
        push_bit_eq_mult [where 'a = nat] drop_bit_eq_div [where 'a = nat] of_nat_id)
  moreover have "unat (of_nat n :: 'a word) = n div 2 ^ ?k * 2 ^ ?k"
    using assms(2,4) by (simp add: unsigned_of_nat take_bit_nat_eq_self)
  ultimately show ?thesis
    by (simp add: in_net_def and_high_mask [OF assms(3)] word_unat_eq_iff)
qed

lemma octets_val4: "octets_val [a, b, c, d] = a * 2 ^ 24 + b * 2 ^ 16 + c * 2 ^ 8 + d"
  by (simp add: octets_val_def)

lemma in_v4_net:
  assumes "a \<le> 255" "b \<le> 255" "c \<le> 255" "d \<le> 255" "x \<le> 255" "y \<le> 255" "p \<le> 16"
    and "2 ^ (16 - p) dvd (x * 256 + y)"
  shows "in_net (of_nat (octets_val [a, b, c, d])) (v4_net x y p)
    \<longleftrightarrow> (a * 256 + b) div 2 ^ (16 - p) = (x * 256 + y) div 2 ^ (16 - p)"
proof -
  have k: "(2::nat) ^ (32 - p) = 2 ^ 16 * 2 ^ (16 - p)"
  proof -
    have "32 - p = 16 + (16 - p)" using assms(7) by simp
    then show ?thesis by (simp only: power_add)
  qed
  have o: "octets_val [a, b, c, d] = (a * 256 + b) * 2 ^ 16 + (c * 256 + d)" for a b c d
    by (simp add: octets_val4)
  have d: "octets_val [a, b, c, d] div 2 ^ (32 - p) = (a * 256 + b) div 2 ^ (16 - p)"
    if "c \<le> 255" "d \<le> 255" for a b c d
  proof -
    have "octets_val [a, b, c, d] div 2 ^ 16 = a * 256 + b" using that by (simp add: octets_val4)
    then show ?thesis unfolding k by (simp add: div_mult2_eq)
  qed
  have "in_net (of_nat (octets_val [a, b, c, d]) :: 32 word) (of_nat (octets_val [x, y, 0, 0]), p)
      \<longleftrightarrow> octets_val [a, b, c, d] div 2 ^ (LENGTH(32) - p) = octets_val [x, y, 0, 0] div 2 ^ (LENGTH(32) - p)"
  proof (rule in_net_of_nat)
    have "2 ^ (16 - p) * 2 ^ 16 dvd (x * 256 + y) * 2 ^ 16"
      using assms(8) by (rule mult_dvd_mono) simp
    then show "2 ^ (LENGTH(32) - p) dvd octets_val [x, y, 0, 0]"
      using k by (simp add: o mult.commute)
  qed (use assms in \<open>auto simp: o\<close>)
  then show ?thesis using d [of c d a b] d [of 0 0 x y] assms by (simp add: v4_net_def)
qed

lemma net_blocks:
  fixes a b :: nat
  assumes "b \<le> 255"
  shows "(a * 256 + b) div 64 = 401 \<longleftrightarrow> a = 100 \<and> 64 \<le> b \<and> b \<le> 127"
    and "(a * 256 + b) div 16 = 2753 \<longleftrightarrow> a = 172 \<and> 16 \<le> b \<and> b \<le> 31"
    and "(a * 256 + b) = 49320 \<longleftrightarrow> a = 192 \<and> b = 168"
proof -
  have "(a * 256 + b) div 64 = a * 4 + b div 64" "(a * 256 + b) div 16 = a * 16 + b div 16"
    using div_mult_self1 [of 64 b "a * 4"] div_mult_self1 [of 16 b "a * 16"] by (simp_all add: ac_simps)
  moreover have "b div 64 < 4" "b div 16 < 16" using assms by auto
  moreover have "x * 4 + q = 401 \<longleftrightarrow> x = 100 \<and> q = 1" if "q < 4" for x q :: nat using that by presburger
  moreover have "x * 16 + q = 2753 \<longleftrightarrow> x = 172 \<and> q = 1" if "q < 16" for x q :: nat using that by presburger
  moreover have "b div 64 = 1 \<longleftrightarrow> 64 \<le> b \<and> b \<le> 127" "b div 16 = 1 \<longleftrightarrow> 16 \<le> b \<and> b \<le> 31" by auto
  ultimately show "(a * 256 + b) div 64 = 401 \<longleftrightarrow> a = 100 \<and> 64 \<le> b \<and> b \<le> 127"
    and "(a * 256 + b) div 16 = 2753 \<longleftrightarrow> a = 172 \<and> 16 \<le> b \<and> b \<le> 31" by simp_all
  show "a * 256 + b = 49320 \<longleftrightarrow> a = 192 \<and> b = 168"
  proof
    assume e: "a * 256 + b = 49320"
    then have "a = 192" using assms by auto
    with e show "a = 192 \<and> b = 168" by simp
  qed simp
qed

definition allowed_v4 :: "nat \<Rightarrow> nat \<Rightarrow> bool" where
  "allowed_v4 a b =
     (a = 127 \<or> (a = 100 \<and> 64 \<le> b \<and> b \<le> 127)
      \<or> a = 10 \<or> (a = 172 \<and> 16 \<le> b \<and> b \<le> 31) \<or> (a = 192 \<and> b = 168))"

lemma allowed_dotted:
  assumes "a \<le> 255" "b \<le> 255" "c \<le> 255" "d \<le> 255"
  shows "is_allowed_report_src (dotted a b c d) \<longleftrightarrow> allowed_v4 a b"
proof -
  let ?w = "of_nat (octets_val [a, b, c, d]) :: 32 word"
  have p: "parse_ipv4 (dotted a b c d) = Some ?w" using parse_ipv4_iff assms by blast
  have n: "in_net ?w tailnet_v4 \<longleftrightarrow> a = 100 \<and> 64 \<le> b \<and> b \<le> 127"
    "in_net ?w loopback_v4 \<longleftrightarrow> a = 127"
    "list_ex (in_net ?w) priv_v4 \<longleftrightarrow> a = 10 \<or> (a = 172 \<and> 16 \<le> b \<and> b \<le> 31) \<or> (a = 192 \<and> b = 168)"
    using assms unfolding tailnet_v4_def loopback_v4_def priv_v4_def
    using net_blocks [of b a] by (simp_all add: in_v4_net)
  have "is_allowed_report_src (dotted a b c d)
      \<longleftrightarrow> in_net ?w loopback_v4 \<or> in_net ?w tailnet_v4 \<or> list_ex (in_net ?w) priv_v4"
    using p by (simp add: is_allowed_report_src_def is_tailnet_ip_def ip_address_def)
  then show ?thesis unfolding n allowed_v4_def by blast
qed

lemma dotted_inject:
  assumes "dotted a b c d = dotted a' b' c' d'"
  shows "a = a' \<and> b = b'"
proof -
  have "map nat_digits [a, b, c, d] = map nat_digits [a', b', c', d']"
    using assms by (simp only: split_dotted [symmetric])
  then have "nat_digits a = nat_digits a'" "nat_digits b = nat_digits b'" by simp_all
  then show ?thesis by (metis digits_val_nat_digits)
qed

text \<open>C10: A report is accepted exactly from a dotted IPv4 address of the loopback, tailnet or private
  ranges, written canonically, or from an IPv6 text that denotes the loopback address or one of the
  tailnet prefix; every other text, address or not, is refused.\<close>

theorem report_sources_exact:
  "is_allowed_report_src s \<longleftrightarrow>
     (\<exists>a b c d. a \<le> 255 \<and> b \<le> 255 \<and> c \<le> 255 \<and> d \<le> 255 \<and> s = dotted a b c d
        \<and> (a = 127 \<or> (a = 100 \<and> 64 \<le> b \<and> b \<le> 127)
           \<or> a = 10 \<or> (a = 172 \<and> 16 \<le> b \<and> b \<le> 31) \<or> (a = 192 \<and> b = 168)))
     \<or> (parse_ipv4 s = None
        \<and> (\<exists>w. parse_ipv6 s = Some w \<and> (w = 1 \<or> drop_bit 80 w = 0xFD7A115CA1E0)))"
  (is "_ \<longleftrightarrow> ?V4 \<or> ?V6")
proof (cases "parse_ipv4 s")
  case None
  then have "\<not> ?V4" using parse_ipv4_iff [of s] by (metis option.distinct(1))
  moreover have "in_net w tailnet_v6 \<longleftrightarrow> drop_bit 80 w = 0xFD7A115CA1E0" for w
  proof -
    have "in_net w tailnet_v6 \<longleftrightarrow> push_bit 80 (drop_bit 80 w) = (push_bit 80 0xFD7A115CA1E0 :: 128 word)"
      using and_high_mask [where 'a = 128, of 48 w] by (simp add: in_net_def tailnet_v6_def)
    moreover have "drop_bit 80 (push_bit 80 (drop_bit 80 w)) = drop_bit 80 w"
      by (rule bit_word_eqI) (auto simp: bit_simps dest: bit_imp_le_length)
    moreover have "drop_bit 80 (push_bit 80 (0xFD7A115CA1E0 :: 128 word)) = 0xFD7A115CA1E0" by simp
    ultimately show ?thesis by metis
  qed
  ultimately show ?thesis using None
    by (auto simp: is_allowed_report_src_def is_tailnet_ip_def ip_address_def
        split: option.splits if_splits)
next
  case (Some w)
  then obtain a b c d where h: "a \<le> 255" "b \<le> 255" "c \<le> 255" "d \<le> 255" "s = dotted a b c d"
    using parse_ipv4_iff by blast
  have "?V4 \<longleftrightarrow> allowed_v4 a b"
  proof
    assume ?V4
    then obtain a' b' c' d' where e: "s = dotted a' b' c' d'" and P: "allowed_v4 a' b'"
      unfolding allowed_v4_def by (elim exE conjE)
    have "a = a' \<and> b = b'" by (rule dotted_inject) (use e h(5) in simp)
    with P show "allowed_v4 a b" by simp
  next
    assume "allowed_v4 a b"
    with h show ?V4 unfolding allowed_v4_def
      by (intro exI [of _ a] exI [of _ b] exI [of _ c] exI [of _ d] conjI)
  qed
  then show ?thesis using Some allowed_dotted [OF h(1-4)] h(5) by simp
qed

end
