(* ===== verification/PyLoads.thy ===== *)
theory PyLoads
  imports PyJson "HOL-Library.AList"
begin

text \<open>
  \<open>json.loads\<close> on a string, as CPython's decoder reads it: strict strings, the constants \<open>NaN\<close>,
  \<open>Infinity\<close> and \<open>-Infinity\<close>, the last of two equal keys. Every syntax error is the same \<open>ValueError\<close>
  (its message is not modelled); a \<open>\u\<close> escape above 255 is outside the strings of the model. The
  decoder recurses on the rest of the text, so it carries fuel, and \<open>json_value_fuel\<close> shows that the
  fuel \<open>loads\<close> gives is enough. The bytes of a reply are a string of byte values, and \<open>utf8_decode\<close>
  is \<open>raw.decode("utf-8")\<close>.
\<close>

subsection \<open>Strings\<close>

definition bad_json :: pyexn where
  "bad_json = ValueError ''JSONDecodeError''"

definition simple_escape :: "char \<Rightarrow> char option" where
  "simple_escape e =
     (if e \<in> {CHR 0x22, CHR 0x5C, CHR ''/''} then Some e
      else if e = CHR ''n'' then Some NL
      else if e = CHR ''r'' then Some (CHR 0x0D)
      else if e = CHR ''t'' then Some (CHR 0x09)
      else if e = CHR ''f'' then Some (CHR 0x0C)
      else if e = CHR ''b'' then Some (CHR 0x08)
      else None)"

text \<open>What follows the opening quote: the decoded string and the text after the closing quote.\<close>

fun json_string :: "string \<Rightarrow> (string \<times> string) res" where
  "json_string [] = Inl bad_json"
| "json_string (c # s) =
     (if c = CHR 0x22 then Inr ([], s)
      else if c \<noteq> CHR 0x5C then
        (if code c < 32 then Inl bad_json else rbind (json_string s) (\<lambda>(a, r). Inr (c # a, r)))
      else
        (case s of
           [] \<Rightarrow> Inl bad_json
         | e # t \<Rightarrow>
             (case simple_escape e of
                Some d \<Rightarrow> rbind (json_string t) (\<lambda>(a, r). Inr (d # a, r))
              | None \<Rightarrow>
                  if e \<noteq> CHR ''u'' then Inl bad_json
                  else
                    (case t of
                       h1 # h2 # h3 # h4 # u \<Rightarrow>
                         if \<not> list_all is_hex [h1, h2, h3, h4] then Inl bad_json
                         else if hex_val h1 = 0 \<and> hex_val h2 = 0
                         then rbind (json_string u) (\<lambda>(a, r).
                           Inr (char_of (16 * hex_val h3 + hex_val h4) # a, r))
                         else Inl OutOfSchema
                     | _ \<Rightarrow> Inl bad_json))))"

subsection \<open>Numbers\<close>

definition json_space :: "char \<Rightarrow> bool" where
  "json_space c = (c \<in> {CHR '' '', CHR 0x09, NL, CHR 0x0D})"

definition skip_space :: "string \<Rightarrow> string" where
  "skip_space s = dropWhile json_space s"

text \<open>The longest prefix that is a number: sign and digits, then a fraction and an exponent if they are
  complete.\<close>

definition number_int :: "string \<Rightarrow> (string \<times> string) option" where
  "number_int s =
     (case s of
        [] \<Rightarrow> None
      | c # t \<Rightarrow>
          (let (m, r) = (if c = CHR ''-'' then ([c], t) else ([], s)) in
           case r of
             [] \<Rightarrow> None
           | d # u \<Rightarrow>
               if d = CHR ''0'' then Some (m @ [d], u)
               else if is_digit d then Some (m @ takeWhile is_digit r, dropWhile is_digit r)
               else None))"

definition number_frac :: "string \<Rightarrow> string \<times> string" where
  "number_frac s =
     (case s of
        c # d # t \<Rightarrow>
          if c = CHR ''.'' \<and> is_digit d then (c # takeWhile is_digit (d # t), dropWhile is_digit (d # t))
          else ([], s)
      | _ \<Rightarrow> ([], s))"

definition number_exp :: "string \<Rightarrow> string \<times> string" where
  "number_exp s =
     (case s of
        e # t \<Rightarrow>
          if e = CHR ''e'' \<or> e = CHR ''E'' then
            (let (m, r) = (case t of x # u \<Rightarrow> if x = CHR ''-'' \<or> x = CHR ''+'' then ([x], u) else ([], t)
                           | [] \<Rightarrow> ([], [])) in
             if takeWhile is_digit r = [] then ([], s)
             else (e # m @ takeWhile is_digit r, dropWhile is_digit r))
          else ([], s)
      | [] \<Rightarrow> ([], s))"

definition json_number :: "string \<Rightarrow> (json \<times> string) res" where
  "json_number s =
     (case number_int s of
        None \<Rightarrow> Inl bad_json
      | Some (i, r) \<Rightarrow>
          (let (f, r1) = number_frac r; (e, r2) = number_exp r1 in
           if f = [] \<and> e = []
           then (case parse_int i of None \<Rightarrow> Inl bad_json | Some n \<Rightarrow> Inr (JInt n, r2))
           else (case parse_float (i @ f @ e) of None \<Rightarrow> Inl bad_json | Some x \<Rightarrow> Inr (JFloat x, r2))))"

subsection \<open>Values\<close>

definition json_words :: "(string \<times> json) list" where
  "json_words = [(''null'', JNull), (''true'', JBool True), (''false'', JBool False), (''NaN'', JFloat NaN),
     (''Infinity'', JFloat PosInf), (''-Infinity'', JFloat NegInf)]"

definition json_word :: "string \<Rightarrow> (json \<times> string) option" where
  "json_word s =
     map_option (\<lambda>(w, v). (v, drop (length w) s)) (find (\<lambda>(w, v). starts_with w s) json_words)"

fun json_value :: "nat \<Rightarrow> string \<Rightarrow> (json \<times> string) res"
  and json_items :: "nat \<Rightarrow> string \<Rightarrow> (json list \<times> string) res"
  and json_members :: "nat \<Rightarrow> string \<Rightarrow> ((string \<times> json) list \<times> string) res" where
  "json_value 0 s = Inl bad_json"
| "json_value (Suc n) s =
     (case s of
        [] \<Rightarrow> Inl bad_json
      | c # t \<Rightarrow>
          if c = CHR 0x22 then rbind (json_string t) (\<lambda>(a, r). Inr (JStr a, r))
          else if c = CHR ''['' then
            (if starts_with '']'' (skip_space t) then Inr (JArr [], tl (skip_space t))
             else rbind (json_items n (skip_space t)) (\<lambda>(xs, r). Inr (JArr xs, r)))
          else if c = CHR ''{'' then
            (if starts_with ''}'' (skip_space t) then Inr (JObj [], tl (skip_space t))
             else rbind (json_members n (skip_space t)) (\<lambda>(kvs, r).
               Inr (JObj (fold (\<lambda>(k, v). AList.update k v) kvs []), r)))
          else (case json_word s of Some vr \<Rightarrow> Inr vr | None \<Rightarrow> json_number s))"
| "json_items 0 s = Inl bad_json"
| "json_items (Suc n) s =
     rbind (json_value n s) (\<lambda>(v, r).
       case skip_space r of
         [] \<Rightarrow> Inl bad_json
       | c # t \<Rightarrow>
           if c = CHR '']'' then Inr ([v], t)
           else if c = CHR '','' then
             rbind (json_items n (skip_space t)) (\<lambda>(vs, r'). Inr (v # vs, r'))
           else Inl bad_json)"
| "json_members 0 s = Inl bad_json"
| "json_members (Suc n) s =
     (case s of
        [] \<Rightarrow> Inl bad_json
      | q # s' \<Rightarrow>
          if q \<noteq> CHR 0x22 then Inl bad_json
          else
            rbind (json_string s') (\<lambda>(k, r0).
              case skip_space r0 of
                [] \<Rightarrow> Inl bad_json
              | c0 # t0 \<Rightarrow>
                  if c0 \<noteq> CHR '':'' then Inl bad_json
                  else
                    rbind (json_value n (skip_space t0)) (\<lambda>(v, r).
                      case skip_space r of
                        [] \<Rightarrow> Inl bad_json
                      | c # t \<Rightarrow>
                          if c = CHR ''}'' then Inr ([(k, v)], t)
                          else if c = CHR '','' then
                            rbind (json_members n (skip_space t)) (\<lambda>(kvs, r'). Inr ((k, v) # kvs, r'))
                          else Inl bad_json)))"

definition loads :: "string \<Rightarrow> json res" where
  "loads s =
     rbind (json_value (2 * length s + 2) (skip_space s)) (\<lambda>(v, r).
       if skip_space r = [] then Inr v else Inl bad_json)"

lemma loads_examples:
  "loads '' [1, true , {} ]'' = Inr (JArr [JInt 1, JBool True, JObj []])"
  "loads ''[1,]'' = Inl bad_json"
  "loads ''{ \"a\" : -0, \"b\":[null], \"a\": \"x\"}'' = Inr (JObj [(''a'', JStr ''x''), (''b'', JArr [JNull])])"
  by code_simp+

subsection \<open>The fuel is enough\<close>

lemma json_string_rest: "json_string s = Inr (a, r) \<Longrightarrow> length r < length s"
proof (induction s arbitrary: a r rule: json_string.induct)
  case (2 c s)
  have step: "length r < Suc (length u)" if "rbind (json_string u) (\<lambda>(b, q). Inr (d # b, q)) = Inr (a, r)"
    "\<And>b q. json_string u = Inr (b, q) \<Longrightarrow> length q < length u" for u d
    using that by (force simp: res_simps)
  consider "c = CHR 0x22" | "c \<noteq> CHR 0x22" "c \<noteq> CHR 0x5C" | "c = CHR 0x5C" "c \<noteq> CHR 0x22" by blast
  then show ?case
  proof cases
    case 1
    with "2.prems" show ?thesis by simp
  next
    case c: 2
    with "2.prems" have "rbind (json_string s) (\<lambda>(b, q). Inr (c # b, q)) = Inr (a, r)"
      by (auto split: if_splits)
    from step [OF this "2.IH"(1)] c "2.prems" show ?thesis by (auto split: if_splits)
  next
    case c: 3
    with "2.prems" obtain e t where s: "s = e # t" by (auto split: list.splits)
    show ?thesis
    proof (cases "simple_escape e")
      case (Some d)
      with "2.prems" c s have "rbind (json_string t) (\<lambda>(b, q). Inr (d # b, q)) = Inr (a, r)" by simp
      moreover have "json_string t = Inr (b, q) \<Longrightarrow> length q < length t" for b q
        using "2.IH"(3) c s Some by simp
      ultimately have "length r < Suc (length t)" by (rule step)
      with s show ?thesis by simp
    next
      case None
      with "2.prems" c s obtain h1 h2 h3 h4 u where t: "t = h1 # h2 # h3 # h4 # u" and e: "e = CHR ''u''"
        by (auto split: list.splits if_splits)
      with "2.prems" c s None
      have "rbind (json_string u) (\<lambda>(b, q). Inr (char_of (16 * hex_val h3 + hex_val h4) # b, q)) = Inr (a, r)"
        by (simp split: if_splits)
      moreover have "json_string u = Inr (b, q) \<Longrightarrow> length q < length u" for b q
        using "2.IH"(2) c s None t e "2.prems" by (simp split: if_splits)
      ultimately have "length r < Suc (length u)" by (rule step)
      with s t show ?thesis by simp
    qed
  qed
qed simp

lemma skip_space_length: "length (skip_space s) \<le> length s"
  by (simp add: skip_space_def length_dropWhile_le)

lemma skip_space_Cons: "skip_space s = c # t \<Longrightarrow> length t < length s"
  using skip_space_length [of s] by simp

lemma json_number_rest: "json_number s = Inr (v, r) \<Longrightarrow> length r < length s"
proof -
  assume a: "json_number s = Inr (v, r)"
  have frac: "length (snd (number_frac u)) \<le> length u" for u
    by (auto simp: number_frac_def length_dropWhile_le split: list.split intro!: le_SucI)
  have exp: "length (snd (number_exp u)) \<le> length u" for u
    by (auto simp: number_exp_def Let_def length_dropWhile_le split: list.split prod.splits
        intro: le_SucI order_trans [OF length_dropWhile_le])
  obtain i r0 where i: "number_int s = Some (i, r0)"
    using a by (auto simp: json_number_def split: option.splits)
  then have "length r0 < length s"
    by (auto simp: number_int_def Let_def less_Suc_eq_le length_dropWhile_le split: list.splits if_splits
        intro: le_SucI)
  moreover have "r = snd (number_exp (snd (number_frac r0)))"
    using a i by (auto simp: json_number_def split: prod.splits if_splits option.splits)
  ultimately show ?thesis using frac [of r0] exp [of "snd (number_frac r0)"] by simp
qed

lemma json_word_rest:
  assumes "json_word s = Some (v, r)" and "s \<noteq> []"
  shows "length r < length s"
proof -
  obtain w where "find (\<lambda>(w, v). starts_with w s) json_words = Some (w, v)" "r = drop (length w) s"
    using assms(1) by (auto simp: json_word_def)
  moreover from this have "w \<noteq> []" by (auto simp: json_words_def split: if_splits)
  ultimately show ?thesis using assms(2) by (simp add: diff_less)
qed

lemma tl_starts: "starts_with [c] s \<Longrightarrow> length (tl s) < length s"
  by (cases s) simp_all

lemma json_rest:
  "json_value n s = Inr (v, r) \<Longrightarrow> length r < length s"
  "json_items n s = Inr (vs, r) \<Longrightarrow> length r < length s"
  "json_members n s = Inr (kvs, r) \<Longrightarrow> length r < length s"
proof (induction n s and n s and n s arbitrary: v r and vs r and kvs r
    rule: json_value_json_items_json_members.induct)
  case (2 n s)
  obtain c t where s: "s = c # t" using "2.prems" by (cases s) auto
  have t: "length (skip_space t) \<le> length t" by (rule skip_space_length)
  consider "c = CHR 0x22" | "c = CHR ''[''" | "c = CHR ''{''"
    | "c \<noteq> CHR 0x22" "c \<noteq> CHR ''[''" "c \<noteq> CHR ''{''" by blast
  then show ?case
  proof cases
    case 1
    with "2.prems" s show ?thesis by (auto simp: res_simps dest: json_string_rest)
  next
    case 2
    show ?thesis
    proof (cases "starts_with '']'' (skip_space t)")
      case True
      with 2 "2.prems" s t tl_starts [OF True] show ?thesis by auto
    next
      case False
      with 2 "2.prems" s obtain xs where "json_items n (skip_space t) = Inr (xs, r)" by (auto simp: res_simps)
      then have "length r < length (skip_space t)" using "2.IH"(1) s 2 False by simp
      with s t show ?thesis by simp
    qed
  next
    case 3
    show ?thesis
    proof (cases "starts_with ''}'' (skip_space t)")
      case True
      with 3 "2.prems" s t tl_starts [OF True] show ?thesis by auto
    next
      case False
      with 3 "2.prems" s obtain xs where "json_members n (skip_space t) = Inr (xs, r)" by (auto simp: res_simps)
      then have "length r < length (skip_space t)" using "2.IH"(2) s 3 False by simp
      with s t show ?thesis by simp
    qed
  next
    case 4
    with "2.prems" s show ?thesis by (auto dest: json_number_rest json_word_rest split: option.splits)
  qed
next
  case (4 n s)
  from "4.prems" obtain v' r0 where v: "json_value n s = Inr (v', r0)" by (auto simp: res_simps)
  have l: "length r0 < length s" by (rule "4.IH"(1) [OF v])
  from "4.prems" v obtain c t where r0: "skip_space r0 = c # t" by (auto split: list.splits)
  show ?case
  proof (cases "c = CHR '']''")
    case True
    with "4.prems" v r0 l skip_space_Cons [OF r0] show ?thesis by auto
  next
    case False
    with "4.prems" v r0 obtain ws where c: "c = CHR '',''" and w: "json_items n (skip_space t) = Inr (ws, r)"
      by (auto simp: res_simps split: if_splits)
    have "length r < length (skip_space t)" by (rule "4.IH"(2) [OF r0 False c w])
    with l skip_space_Cons [OF r0] skip_space_length [of t] show ?thesis by simp
  qed
next
  case (6 n s)
  from "6.prems" obtain s' where s: "s = CHR 0x22 # s'" by (auto split: list.splits if_splits)
  with "6.prems" obtain k r0 where k: "json_string s' = Inr (k, r0)" by (auto simp: res_simps)
  with "6.prems" s obtain t0 where r0: "skip_space r0 = CHR '':'' # t0"
    by (auto split: list.splits if_splits)
  with "6.prems" s k obtain v' r1 where v: "json_value n (skip_space t0) = Inr (v', r1)"
    by (auto simp: res_simps)
  have l: "length r1 < length (skip_space t0)" by (rule "6.IH"(1) [OF s _ r0 _ v]) simp_all
  have l2: "length (skip_space t0) < length s'"
    using json_string_rest [OF k] skip_space_Cons [OF r0] skip_space_length [of t0] by simp
  from "6.prems" s k r0 v obtain c t where r1: "skip_space r1 = c # t" by (auto split: list.splits)
  show ?case
  proof (cases "c = CHR ''}''")
    case True
    with "6.prems" s k r0 v r1 l l2 skip_space_Cons [OF r1] show ?thesis by auto
  next
    case False
    with "6.prems" s k r0 v r1 obtain ws where c: "c = CHR '',''"
      and w: "json_members n (skip_space t) = Inr (ws, r)"
      by (auto simp: res_simps split: if_splits)
    have "length r < length (skip_space t)"
      by (rule "6.IH"(2) [OF s _ r0 _ r1 False c w]) simp_all
    with s l l2 skip_space_Cons [OF r1] skip_space_length [of t] show ?thesis by simp
  qed
qed simp_all

text \<open>More fuel than twice the length of the text changes nothing.\<close>

lemma json_value_fuel:
  "2 * length s < n \<Longrightarrow> json_value (Suc n) s = json_value n s"
  "2 * length s + 1 < n \<Longrightarrow> json_items (Suc n) s = json_items n s"
  "2 * length s < n \<Longrightarrow> json_members (Suc n) s = json_members n s"
proof (induction n s and n s and n s rule: json_value_json_items_json_members.induct)
  case (2 n s)
  show ?case
  proof (cases s)
    case (Cons c t)
    have "2 * length (skip_space t) + 1 < n" using "2.prems" Cons skip_space_length [of t] by simp
    with Cons "2.IH" show ?thesis by simp
  qed simp
next
  case (4 n s)
  have v: "json_value (Suc n) s = json_value n s" using "4.IH"(1) "4.prems" by simp
  have m: "json_items (Suc n) (skip_space t) = json_items n (skip_space t)"
    if "json_value n s = Inr (u, r)" "skip_space r = CHR '','' # t" for u r t
    by (rule "4.IH"(2) [OF that(2)])
      (use that "4.prems" json_rest(1) [OF that(1)] skip_space_Cons [OF that(2)] skip_space_length [of t] in auto)
  note simps = json_items.simps(2) [of "Suc n" s] json_items.simps(2) [of n s]
  show ?case
  proof (cases "\<exists>u r t. json_value n s = Inr (u, r) \<and> skip_space r = CHR '','' # t")
    case False
    then show ?thesis unfolding simps v
      by (auto simp: rbind_def simp del: json_items.simps split: sum.split list.split)
  next
    case True
    then obtain u r t where u: "json_value n s = Inr (u, r)" "skip_space r = CHR '','' # t" by blast
    show ?thesis unfolding simps v by (simp add: u m [OF u] del: json_items.simps)
  qed
next
  case (6 n s)
  have v: "json_value (Suc n) (skip_space t0) = json_value n (skip_space t0)"
    if "s = CHR 0x22 # s'" "json_string s' = Inr (k, r0)" "skip_space r0 = CHR '':'' # t0" for s' k r0 t0
    by (rule "6.IH"(1) [OF that(1) _ that(3)])
      (use that "6.prems" json_string_rest [OF that(2)] skip_space_Cons [OF that(3)] skip_space_length [of t0] in auto)
  have m: "json_members (Suc n) (skip_space t) = json_members n (skip_space t)"
    if "s = CHR 0x22 # s'" "json_string s' = Inr (k, r0)" "skip_space r0 = CHR '':'' # t0"
      "json_value n (skip_space t0) = Inr (u, r1)" "skip_space r1 = CHR '','' # t" for s' k r0 t0 u r1 t
    by (rule "6.IH"(2) [OF that(1) _ that(3) _ that(5)])
      (use that "6.prems" json_string_rest [OF that(2)] skip_space_Cons [OF that(3)] skip_space_length [of t0]
         json_rest(1) [OF that(4)] skip_space_Cons [OF that(5)] skip_space_length [of t] in auto)
  note simps = json_members.simps(2) [of "Suc n" s] json_members.simps(2) [of n s]
  show ?case
  proof (cases "\<exists>s'. s = CHR 0x22 # s'")
    case False
    then show ?thesis unfolding simps by (simp split: list.split)
  next
    case True
    then obtain s' where s: "s = CHR 0x22 # s'" by blast
    note simps = json_members.simps(2) [of "Suc n" "CHR 0x22 # s'"] json_members.simps(2) [of n "CHR 0x22 # s'"]
    show ?thesis
    proof (cases "\<exists>k r0 t0. json_string s' = Inr (k, r0) \<and> skip_space r0 = CHR '':'' # t0")
      case False
      show ?thesis
      proof (cases "json_string s'")
        case (Inr kr)
        obtain k r0 where kr: "kr = (k, r0)" by (cases kr)
        with False Inr have "\<nexists>t. skip_space r0 = CHR '':'' # t" by blast
        with Inr kr show ?thesis unfolding s simps by (cases "skip_space r0") auto
      qed (simp add: s)
    next
      case True
      then obtain k r0 t0 where k: "json_string s' = Inr (k, r0)" "skip_space r0 = CHR '':'' # t0" by blast
      show ?thesis
      proof (cases "\<exists>u r1 t. json_value n (skip_space t0) = Inr (u, r1) \<and> skip_space r1 = CHR '','' # t")
        case False
        note unfold = v [OF s k] k
        show ?thesis
        proof (cases "json_value n (skip_space t0)")
          case (Inr ur)
          obtain u r1 where ur: "ur = (u, r1)" by (cases ur)
          with False Inr have "\<nexists>t. skip_space r1 = CHR '','' # t" by blast
          with Inr ur show ?thesis unfolding s simps
            by (cases "skip_space r1") (auto simp: unfold simp del: json_members.simps json_value.simps)
        qed (simp add: s simps unfold del: json_members.simps json_value.simps)
      next
        case True
        then obtain u r1 t where u: "json_value n (skip_space t0) = Inr (u, r1)" "skip_space r1 = CHR '','' # t"
          by blast
        show ?thesis unfolding s simps
          by (simp add: v [OF s k] k u m [OF s k u] del: json_members.simps json_value.simps)
      qed
    qed
  qed
qed simp_all

lemma loads_fuel:
  assumes "2 * length s + 2 \<le> n"
  shows "loads s = rbind (json_value n (skip_space s)) (\<lambda>(v, r). if skip_space r = [] then Inr v else Inl bad_json)"
proof -
  have "json_value n (skip_space s) = json_value (2 * length s + 2) (skip_space s)"
    using assms
  proof (induction n rule: dec_induct)
    case (step m)
    with json_value_fuel(1) [of "skip_space s" m] skip_space_length [of s] show ?case by simp
  qed simp
  then show ?thesis by (simp add: loads_def)
qed

subsection \<open>Bytes\<close>

text \<open>\<open>raw.decode("utf-8")\<close> of a string of bytes: two bytes from C2 or C3 are a character below 256; a
  longer sequence is outside the strings of the model; anything else raises \<open>UnicodeDecodeError\<close>, a
  \<open>ValueError\<close>.\<close>

definition continuation :: "char \<Rightarrow> bool" where
  "continuation c = (128 \<le> code c \<and> code c < 192)"

fun utf8_decode :: "string \<Rightarrow> string res" where
  "utf8_decode [] = Inr []"
| "utf8_decode (c # s) =
     (if code c < 128 then rbind (utf8_decode s) (\<lambda>t. Inr (c # t))
      else if code c < 194 \<or> 244 < code c then Inl (ValueError ''UnicodeDecodeError'')
      else
        (case s of
           [] \<Rightarrow> Inl (ValueError ''UnicodeDecodeError'')
         | d # s' \<Rightarrow>
             if \<not> continuation d then Inl (ValueError ''UnicodeDecodeError'')
             else if code c < 196
             then rbind (utf8_decode s') (\<lambda>t. Inr (char_of (64 * (code c - 192) + (code d - 128)) # t))
             else Inl OutOfSchema))"

text \<open>\<open>s.encode("utf-8")\<close>.\<close>

definition utf8_char :: "char \<Rightarrow> string" where
  "utf8_char c =
     (if code c < 128 then [c] else [char_of (192 + code c div 64), char_of (128 + code c mod 64)])"

definition utf8_encode :: "string \<Rightarrow> string" where
  "utf8_encode s = concat (map utf8_char s)"

lemma utf8_roundtrip: "utf8_decode (utf8_encode s) = Inr s"
proof (induction s)
  case (Cons c s)
  have b: "code c < 256" by simp
  show ?case
  proof (cases "code c < 128")
    case True
    with Cons show ?thesis by (simp add: utf8_encode_def utf8_char_def)
  next
    case False
    have "code c div 64 < 4" by (rule less_mult_imp_div_less) (use b in simp)
    moreover have "2 \<le> code c div 64" using False div_le_mono [of 128 "code c" 64] by simp
    ultimately have "code c div 64 = 2 \<or> code c div 64 = 3" by linarith
    moreover have m: "code c mod 64 < 64" by simp
    moreover have "char_of (64 * (code c div 64) + code c mod 64) = c" by simp
    ultimately show ?thesis
      using Cons False by (elim disjE) (simp_all add: utf8_encode_def utf8_char_def continuation_def)
  qed
qed (simp add: utf8_encode_def)

text \<open>\<open>json.loads(raw.decode("utf-8"))\<close>.\<close>

definition loads_bytes :: "string \<Rightarrow> json res" where
  "loads_bytes raw = rbind (utf8_decode raw) loads"

text \<open>\<open>json.loads\<close> of bytes guesses the encoding, from a byte order mark and from zero bytes among the first
  four; the model reads UTF-8 only.\<close>

definition loads_any :: "string \<Rightarrow> json res" where
  "loads_any raw =
     (if CHR 0x00 \<in> set (take 4 raw) \<or> starts_with [CHR 0xFE, CHR 0xFF] raw \<or> starts_with [CHR 0xFF, CHR 0xFE] raw
      then Inl OutOfSchema else loads_bytes raw)"

subsection \<open>Quoted strings\<close>

text \<open>A string without control characters, written with its quotes and backslashes escaped.\<close>

definition quote_char :: "char \<Rightarrow> string" where
  "quote_char c = (if c = CHR 0x22 \<or> c = CHR 0x5C then [CHR 0x5C, c] else [c])"

definition no_control :: "string \<Rightarrow> bool" where
  "no_control s = list_all (\<lambda>c. 32 \<le> code c) s"

lemma json_string_quoted:
  "no_control s \<Longrightarrow> json_string (concat (map quote_char s) @ CHR 0x22 # r) = Inr (s, r)"
  by (induction s) (auto simp: no_control_def quote_char_def simple_escape_def)

lemma loads_quoted:
  assumes "no_control s"
  shows "loads (CHR 0x22 # concat (map quote_char s) @ [CHR 0x22]) = Inr (JStr s)"
proof -
  have "skip_space (CHR 0x22 # t) = CHR 0x22 # t" for t
    by (simp add: skip_space_def json_space_def NL_def)
  then show ?thesis
    using json_string_quoted [OF assms, of "[]"] by (simp add: loads_def skip_space_def)
qed

end
