(* ===== verification/JsonText.thy ===== *)
theory JsonText
  imports PyLoads
begin

text \<open>
  \<open>json.loads(json.dumps(x)) == x\<close>: what one side of a connection writes the other side reads. It
  holds for every value whose objects have distinct keys and whose finite floats are read back from
  their \<open>repr\<close>, which every double is; the model states this of a float as the computable
  \<open>reads_back\<close>. The text is ASCII, so that encoding and decoding it changes nothing.
\<close>

subsection \<open>Strings\<close>

lemma hex_digit_read: "n < 16 \<Longrightarrow> is_hex (hex_digit n) \<and> hex_val (hex_digit n) = n"
  by (auto simp: is_hex_def hex_val_def is_digit_def Let_def)

lemma json_string_dumps_char:
  "json_string (dumps_char c @ s) = rbind (json_string s) (\<lambda>(a, r). Inr (c # a, r))"
proof -
  have small: "code c div 16 < 16" using less_mult_imp_div_less [of "code c" 16 16] by simp
  have h: "is_hex (hex_digit (code c div 16))" "is_hex (hex_digit (code c mod 16))"
    "hex_val (hex_digit (code c div 16)) = code c div 16" "hex_val (hex_digit (code c mod 16)) = code c mod 16"
    using hex_digit_read [OF small] hex_digit_read [of "code c mod 16"] by simp_all
  have z: "is_hex (CHR ''0'')" "hex_val (CHR ''0'') = 0" "simple_escape (CHR ''u'') = None" by code_simp+
  have "char_of (16 * (code c div 16) + code c mod 16) = c" by simp
  then show ?thesis
    using h z by (auto simp: dumps_char_def hex2_def simple_escape_def NL_def simp del: hex_digit.simps)
qed

lemma json_string_dumps: "json_string (concat (map dumps_char s) @ CHR 0x22 # r) = Inr (s, r)"
  by (induction s) (simp_all add: json_string_dumps_char)

subsection \<open>Numbers\<close>

text \<open>What may follow a value: the end, a comma or a closing bracket.\<close>

definition stops :: "string \<Rightarrow> bool" where
  "stops r = (r = [] \<or> hd r \<in> {CHR '','', CHR '']'', CHR ''}''})"

lemma stops_hd: "stops (c # r) \<Longrightarrow> \<not> is_digit c \<and> c \<noteq> CHR ''.'' \<and> c \<noteq> CHR ''e'' \<and> c \<noteq> CHR ''E'' \<and> c \<noteq> CHR ''-'' \<and> c \<noteq> CHR ''+''"
  by (auto simp: stops_def is_digit_def)

lemma stops_digits:
  assumes "stops r"
  shows "takeWhile is_digit (s @ r) = takeWhile is_digit s" "dropWhile is_digit (s @ r) = dropWhile is_digit s @ r"
proof -
  have r: "takeWhile is_digit r = []" "dropWhile is_digit r = r"
    using assms stops_hd by (cases r; fastforce)+
  show "takeWhile is_digit (s @ r) = takeWhile is_digit s" "dropWhile is_digit (s @ r) = dropWhile is_digit s @ r"
    by (induction s) (simp_all add: r)
qed

lemma number_int_stops:
  assumes "stops r" and "number_int s = Some (i, t)"
  shows "number_int (s @ r) = Some (i, t @ r)"
proof (cases s)
  case (Cons c u)
  show ?thesis
  proof (cases "c = CHR ''-''")
    case True
    with Cons assms(2) obtain d v where "u = d # v" by (auto simp: number_int_def split: list.splits)
    with Cons True assms stops_digits [OF assms(1), of u] show ?thesis
      by (auto simp: number_int_def split: if_splits)
  next
    case False
    with Cons assms stops_digits [OF assms(1), of s] show ?thesis
      by (auto simp: number_int_def split: if_splits)
  qed
qed (use assms(2) in \<open>simp add: number_int_def\<close>)

lemma number_frac_stops:
  assumes "stops r" and "number_frac s = (f, t)"
  shows "number_frac (s @ r) = (f, t @ r)"
proof -
  consider "s = []" | c where "s = [c]" | c d u where "s = c # d # u" by (cases s rule: remdups_adj.cases) auto
  then show ?thesis
  proof cases
    case 1
    with assms stops_hd show ?thesis by (cases r; cases "tl r"; auto simp: number_frac_def)
  next
    case 2
    with assms stops_hd show ?thesis by (cases r; fastforce simp: number_frac_def)
  next
    case 3
    with assms stops_digits [OF assms(1), of u] show ?thesis by (auto simp: number_frac_def split: if_splits)
  qed
qed

lemma number_exp_stops:
  assumes "stops r" and "number_exp s = (e, t)"
  shows "number_exp (s @ r) = (e, t @ r)"
proof (cases s)
  case Nil
  with assms stops_hd show ?thesis by (cases r; auto simp: number_exp_def)
next
  case (Cons c u)
  show ?thesis
  proof (cases u)
    case Nil
    with Cons assms stops_hd stops_digits [OF assms(1), of "[]"] show ?thesis
      by (cases r; auto simp: number_exp_def)
  next
    case u: (Cons x v)
    with Cons assms stops_digits [OF assms(1), of u] stops_digits [OF assms(1), of v] show ?thesis
      by (auto simp: number_exp_def Let_def split: if_splits)
  qed
qed

lemma json_number_stops:
  assumes "stops r" and "json_number s = Inr (v, [])"
  shows "json_number (s @ r) = Inr (v, r)"
proof -
  obtain i t where i: "number_int s = Some (i, t)" using assms(2) by (auto simp: json_number_def split: option.splits)
  obtain f t1 where f: "number_frac t = (f, t1)" by (cases "number_frac t")
  obtain e t2 where e: "number_exp t1 = (e, t2)" by (cases "number_exp t1")
  note n = number_int_stops [OF assms(1) i] number_frac_stops [OF assms(1) f] number_exp_stops [OF assms(1) e]
  from assms(2) i f e have "t2 = []" by (auto simp: json_number_def split: if_splits option.splits)
  with n i f e assms(2) show ?thesis by (auto simp: json_number_def split: if_splits option.splits)
qed

lemma nat_digits_zero: "nat_digits n = CHR ''0'' # t \<Longrightarrow> n = 0 \<and> t = []"
proof (induction n arbitrary: t rule: nat_digits.induct)
  case (1 n)
  show ?case
  proof (cases "n < 10")
    case True
    then have "nat_digits n = [char_of (48 + n)]" by (simp add: nat_digits.simps)
    with "1.prems" have "code (CHR ''0'') = code (char_of (48 + n) :: char)" "t = []" by auto
    with True show ?thesis by simp
  next
    case False
    obtain c u where d: "nat_digits (n div 10) = c # u" by (cases "nat_digits (n div 10)") auto
    with False "1.prems" have "c = CHR ''0''" by (simp add: nat_digits.simps [of n])
    with "1.IH" [OF False, of u] d have "n div 10 = 0" by simp
    with False show ?thesis by simp
  qed
qed

lemma number_int_digits: "number_int (nat_digits n) = Some (nat_digits n, [])"
proof -
  obtain c t where d: "nat_digits n = c # t" by (cases "nat_digits n") auto
  have all: "\<forall>x \<in> set (c # t). is_digit x" using nat_digits_digits [of _ n] d by auto
  then have "c \<noteq> CHR ''-''" by (auto simp: is_digit_def)
  moreover have "takeWhile is_digit (c # t) = c # t" "dropWhile is_digit (c # t) = []"
    using all by (simp_all only: takeWhile_eq_all_conv dropWhile_eq_Nil_conv)
  moreover have "c = CHR ''0'' \<Longrightarrow> t = []" using nat_digits_zero d by blast
  ultimately show ?thesis using all d by (auto simp: number_int_def)
qed

lemma number_int_int_str: "number_int (int_str i) = Some (int_str i, [])"
proof (cases "i < 0")
  case True
  obtain c t where d: "nat_digits (nat (- i)) = c # t" by (cases "nat_digits (nat (- i))") auto
  have "c \<noteq> CHR ''-''" using nat_digits_digits [of c "nat (- i)"] d by (auto simp: is_digit_def)
  with number_int_digits [of "nat (- i)"] d True show ?thesis
    by (auto simp: number_int_def int_str_def split: if_splits)
qed (simp add: int_str_def number_int_digits)

lemma json_number_int_str: "json_number (int_str i) = Inr (JInt i, [])"
  by (simp add: json_number_def number_int_int_str number_frac_def number_exp_def parse_int_int_str)

definition reads_back :: "pyfloat \<Rightarrow> bool" where
  "reads_back x = (is_finite_float x \<longrightarrow> json_number (float_repr x) = Inr (JFloat x, []))"

text \<open>A number does not look like anything else.\<close>

lemma number_start:
  assumes "json_number s = Inr (v, t)"
  shows "\<exists>c u. s = c # u \<and> (is_digit c \<or> (c = CHR ''-'' \<and> u \<noteq> [] \<and> is_digit (hd u)))"
proof -
  obtain p where "number_int s = Some p" using assms by (auto simp: json_number_def split: option.splits)
  then show ?thesis by (auto simp: number_int_def is_digit_def split: list.splits if_splits)
qed

lemma json_value_number:
  assumes "json_number s = Inr (v, [])" and "stops r"
  shows "json_value (Suc n) (s @ r) = Inr (v, r)"
proof -
  obtain c u where c: "s = c # u" "is_digit c \<or> (c = CHR ''-'' \<and> u \<noteq> [] \<and> is_digit (hd u))"
    using number_start [OF assms(1)] by blast
  have nd: "\<not> is_digit (CHR ''n'')"
    "\<not> is_digit (CHR ''t'')"
    "\<not> is_digit (CHR ''f'')"
    "\<not> is_digit (CHR ''N'')" "\<not> is_digit (CHR ''I'')" "\<not> is_digit (CHR ''['')" "\<not> is_digit (CHR ''{'')" "\<not> is_digit (CHR 0x22)"
    by (simp_all add: is_digit_def)
  have d: "c \<noteq> CHR ''n''" "c \<noteq> CHR ''t''" "c \<noteq> CHR ''f''" "c \<noteq> CHR ''N''" "c \<noteq> CHR ''I''" "c \<noteq> CHR ''[''" "c \<noteq> CHR ''{''" "c \<noteq> CHR 0x22"
    using c(2) nd by fastforce+
  have m: "\<not> starts_with ''-Infinity'' (s @ r)"
  proof (cases "c = CHR ''-''")
    case True
    with c(2) obtain h t where u: "u = h # t" "is_digit h" by (cases u) (auto simp: is_digit_def)
    then have "h \<noteq> CHR ''I''" using nd(5) by blast
    with u c(1) show ?thesis by simp
  qed (simp add: c(1))
  have "\<not> starts_with ''null'' (s @ r)" "\<not> starts_with ''true'' (s @ r)" "\<not> starts_with ''false'' (s @ r)"
    "\<not> starts_with ''NaN'' (s @ r)" "\<not> starts_with ''Infinity'' (s @ r)"
    using d by (simp_all add: c(1))
  with m have "json_word (s @ r) = None" unfolding json_word_def json_words_def by simp
  with d c(1) json_number_stops [OF assms(2,1)] show ?thesis by simp
qed

subsection \<open>Values\<close>

fun plain :: "json \<Rightarrow> bool" where
  "plain (JFloat x) = reads_back x"
| "plain (JArr xs) = list_all plain xs"
| "plain (JObj d) = (distinct (map fst d) \<and> list_all (\<lambda>(k, v). plain v) d)"
| "plain j = True"

lemma digit_not_json_space: "is_digit c \<Longrightarrow> \<not> json_space c \<and> c \<noteq> CHR '']'' \<and> c \<noteq> CHR ''}''"
  by (auto simp: is_digit_def json_space_def NL_def)

lemma dumps_start:
  assumes "plain j"
  obtains c t where "dumps j = c # t" "\<not> json_space c" "c \<noteq> CHR '']''"
proof -
  have n: "\<exists>c t. s = c # t \<and> \<not> json_space c \<and> c \<noteq> CHR '']''" if a: "json_number s = Inr (v, t')" for s v t'
  proof -
    have "\<not> json_space (CHR ''-'')" by (simp add: json_space_def NL_def)
    with number_start [OF a] digit_not_json_space show ?thesis by fastforce
  qed
  have "\<exists>c t. dumps j = c # t \<and> \<not> json_space c \<and> c \<noteq> CHR '']''"
  proof (cases j)
    case (JInt i)
    with n [OF json_number_int_str [of i]] show ?thesis by simp
  next
    case (JFloat x)
    show ?thesis
    proof (cases x)
      case (Fin a)
      with assms JFloat n [of "float_repr x"] show ?thesis by (simp add: reads_back_def)
    qed (simp_all add: JFloat json_space_def NL_def)
  qed (simp_all add: json_space_def NL_def dumps_str_def)
  with that show thesis by blast
qed

lemma skip_space_start: "\<not> json_space c \<Longrightarrow> skip_space (c # t) = c # t"
  by (simp add: skip_space_def)

lemma skip_nil: "skip_space [] = []"
  by (simp add: skip_space_def)

lemma skip_one_space: "skip_space (CHR '' '' # s) = skip_space s"
  by (simp add: skip_space_def json_space_def)

lemma skip_stop: "skip_space (CHR '','' # s) = CHR '','' # s" "skip_space (CHR '']'' # s) = CHR '']'' # s"
  "skip_space (CHR ''}'' # s) = CHR ''}'' # s" "skip_space (CHR '':'' # s) = CHR '':'' # s"
  "skip_space (CHR 0x22 # s) = CHR 0x22 # s"
  by (simp_all add: skip_space_def json_space_def NL_def)

lemma stops_simps [simp]: "stops []" "stops (CHR '','' # s)" "stops (CHR '']'' # s)" "stops (CHR ''}'' # s)"
  by (simp_all add: stops_def)

text \<open>The text of a value is read as that value, whatever stop follows it.\<close>

definition reads :: "json \<Rightarrow> bool" where
  "reads j = (\<forall>n r. 2 * length (dumps j) \<le> n \<longrightarrow> stops r \<longrightarrow> json_value n (dumps j @ r) = Inr (j, r))"

lemma reads_D: "reads j \<Longrightarrow> 2 * length (dumps j) \<le> n \<Longrightarrow> stops r \<Longrightarrow> json_value n (dumps j @ r) = Inr (j, r)"
  by (simp add: reads_def)

lemma json_items_dumps:
  assumes "\<And>x. x \<in> set xs \<Longrightarrow> reads x \<and> plain x" and "xs \<noteq> []"
    and "2 * length (join '', '' (map dumps xs)) < n"
  shows "json_items n (join '', '' (map dumps xs) @ CHR '']'' # r) = Inr (xs, r)"
  using assms
proof (induction xs arbitrary: n)
  case (Cons x xs)
  obtain m where n: "n = Suc m" using Cons.prems(3) by (cases n) auto
  have x: "reads x" using Cons.prems(1) by simp
  show ?case
  proof (cases xs)
    case Nil
    have "json_value m (dumps x @ CHR '']'' # r) = Inr (x, CHR '']'' # r)"
      by (rule reads_D [OF x]) (use Cons.prems(3) n Nil in simp_all)
    with Nil n show ?thesis by (simp add: skip_stop)
  next
    case (Cons y ys)
    let ?rest = "join '', '' (map dumps xs) @ CHR '']'' # r"
    have j: "join '', '' (dumps x # map dumps xs) = dumps x @ '', '' @ join '', '' (map dumps xs)"
      using Cons by (simp add: join_Cons)
    have v: "json_value m (dumps x @ CHR '','' # CHR '' '' # ?rest) = Inr (x, CHR '','' # CHR '' '' # ?rest)"
      by (rule reads_D [OF x]) (use Cons.prems(3) n j in simp_all)
    obtain c t where "dumps y = c # t" "\<not> json_space c"
      using dumps_start Cons.prems(1) Cons by (metis list.set_intros)
    then have s: "skip_space ?rest = ?rest"
      using Cons by (cases ys) (simp_all add: skip_space_start join_Cons)
    have "json_items m ?rest = Inr (xs, r)"
      by (rule Cons.IH) (use Cons.prems Cons j n in simp_all)
    with v s n show ?thesis by (simp add: j skip_stop skip_one_space)
  qed
qed simp

lemma json_members_dumps:
  assumes "\<And>k v. (k, v) \<in> set d \<Longrightarrow> reads v \<and> plain v" and "d \<noteq> []"
    and "2 * length (join '', '' (map (\<lambda>(k, v). dumps_str k @ '': '' @ dumps v) d)) < n"
  shows "json_members n (join '', '' (map (\<lambda>(k, v). dumps_str k @ '': '' @ dumps v) d) @ CHR ''}'' # r) = Inr (d, r)"
  using assms
proof (induction d arbitrary: n)
  case (Cons kv d)
  let ?text = "\<lambda>d. join '', '' (map (\<lambda>(k, v). dumps_str k @ '': '' @ dumps v) d)"
  obtain k v where kv: "kv = (k, v)" by (cases kv)
  obtain m where n: "n = Suc m" using Cons.prems(3) by (cases n) auto
  have v: "reads v" "plain v" using Cons.prems(1) kv by auto
  obtain c t where c: "dumps v = c # t" "\<not> json_space c" using dumps_start [OF v(2)] by blast
  have key: "json_string (concat (map dumps_char k) @ CHR 0x22 # q) = Inr (k, q)" for q
    by (rule json_string_dumps)
  have sp: "skip_space (dumps v @ q) = dumps v @ q" for q using c by (simp add: skip_space_start)
  show ?case
  proof (cases d)
    case Nil
    have "json_value m (dumps v @ CHR ''}'' # r) = Inr (v, CHR ''}'' # r)"
      by (rule reads_D [OF v(1)]) (use Cons.prems(3) n Nil kv in simp_all)
    with Nil n kv show ?thesis by (simp add: dumps_str_def key skip_stop skip_one_space sp)
  next
    case (Cons kv' d')
    let ?rest = "?text d @ CHR ''}'' # r"
    have j: "join '', '' ((dumps_str k @ '': '' @ dumps v) # map (\<lambda>(k, v). dumps_str k @ '': '' @ dumps v) d)
        = dumps_str k @ '': '' @ dumps v @ '', '' @ ?text d"
      using Cons by (simp add: join_Cons)
    have val: "json_value m (dumps v @ CHR '','' # CHR '' '' # ?rest) = Inr (v, CHR '','' # CHR '' '' # ?rest)"
      by (rule reads_D [OF v(1)]) (use Cons.prems(3) n j kv in simp_all)
    have "\<exists>q. ?rest = CHR 0x22 # q" using Cons by (cases kv'; cases d') (simp_all add: join_Cons dumps_str_def)
    then have s: "skip_space ?rest = ?rest" by (auto simp: skip_stop)
    have m: "json_members m ?rest = Inr (d, r)"
    proof (rule Cons.IH)
      show "2 * length (?text d) < m" using Cons.prems(3) j n kv by simp
      show "reads w \<and> plain w" if "(q, w) \<in> set d" for q w using Cons.prems(1) [of q w] that by simp
    qed (use Cons in simp)
    let ?more = "CHR '','' # CHR '' '' # ?rest"
    have t: "?text (kv # d) @ CHR ''}'' # r
        = CHR 0x22 # concat (map dumps_char k) @ CHR 0x22 # CHR '':'' # CHR '' '' # dumps v @ ?more"
      using j kv by (simp add: dumps_str_def)
    have "json_members n (CHR 0x22 # concat (map dumps_char k) @ CHR 0x22 # CHR '':'' # CHR '' '' # dumps v @ ?more)
        = Inr (kv # d, r)"
      using val s m by (simp add: kv n key skip_stop skip_one_space sp del: join.simps)
    then show ?thesis by (simp only: t)
  qed
qed simp

lemma update_distinct:
  "distinct (map fst (acc @ kvs)) \<Longrightarrow> fold (\<lambda>(k, v). AList.update k v) kvs acc = acc @ kvs"
proof (induction kvs arbitrary: acc)
  case (Cons kv kvs)
  obtain k v where kv: "kv = (k, v)" by (cases kv)
  have "k \<notin> fst ` set acc \<Longrightarrow> AList.update k v acc = acc @ [(k, v)]" by (induction acc) auto
  with Cons.prems kv Cons.IH [of "acc @ [kv]"] show ?case by auto
qed simp

lemma reads_number:
  assumes "json_number s = Inr (j, [])" and "dumps j = s"
  shows "reads j"
  unfolding reads_def
proof (intro allI impI)
  fix n :: nat and r :: string
  assume n: "2 * length (dumps j) \<le> n" and r: "stops r"
  have "s \<noteq> []" using number_start [OF assms(1)] by auto
  then obtain m where "n = Suc m" using n assms(2) by (cases n) auto
  then show "json_value n (dumps j @ r) = Inr (j, r)"
    using json_value_number [OF assms(1) r] assms(2) by simp
qed

lemma reads_word:
  assumes "\<And>r. json_word (dumps j @ r) = Some (j, r)" and "dumps j \<noteq> []"
    and "hd (dumps j) \<noteq> CHR 0x22" "hd (dumps j) \<noteq> CHR ''[''" "hd (dumps j) \<noteq> CHR ''{''"
  shows "reads j"
  unfolding reads_def
proof (intro allI impI)
  fix n :: nat and r :: string
  obtain c t where d: "dumps j = c # t" using assms(2) by (cases "dumps j") auto
  assume "2 * length (dumps j) \<le> n"
  then obtain m where "n = Suc m" using d by (cases n) auto
  then show "json_value n (dumps j @ r) = Inr (j, r)" using assms(1) [of r] assms(3-) d by simp
qed

lemma reads_words:
  "reads JNull" "reads (JBool True)" "reads (JBool False)"
  "reads (JFloat NaN)" "reads (JFloat PosInf)" "reads (JFloat NegInf)"
  by (rule reads_word; simp add: json_word_def json_words_def)+

lemma reads_str: "reads (JStr s)"
  unfolding reads_def
proof (intro allI impI)
  fix n :: nat and r :: string
  assume "2 * length (dumps (JStr s)) \<le> n"
  then obtain m where "n = Suc m" by (cases n) (auto simp: dumps_str_def)
  then show "json_value n (dumps (JStr s) @ r) = Inr (JStr s, r)" by (simp add: dumps_str_def json_string_dumps)
qed

lemma reads_all: "plain j \<Longrightarrow> reads j"
proof (induction j rule: plain.induct [case_names Float Arr Obj Null Bool Int Str])
  case (Float x)
  show ?case
  proof (cases x)
    case (Fin a)
    with Float have "json_number (float_repr x) = Inr (JFloat x, [])" by (simp add: reads_back_def)
    with Fin show ?thesis by (intro reads_number) simp_all
  qed (simp_all add: reads_words)
next
  case (Arr xs)
  show ?case unfolding reads_def
  proof (intro allI impI)
    fix n :: nat and r :: string
    assume n: "2 * length (dumps (JArr xs)) \<le> n" and r: "stops r"
    obtain m where m: "n = Suc m" using n by (cases n) auto
    show "json_value n (dumps (JArr xs) @ r) = Inr (JArr xs, r)"
    proof (cases xs)
      case Nil
      with m show ?thesis by (simp add: skip_stop)
    next
      case (Cons y ys)
      obtain c t where c: "dumps y = c # t" "\<not> json_space c" "c \<noteq> CHR '']''"
        using dumps_start [of y] Arr Cons by auto
      let ?s = "join '', '' (map dumps xs) @ CHR '']'' # r"
      have "\<exists>q. ?s = c # q" using Cons c(1) by (cases ys) (simp_all add: join_Cons)
      then have s: "skip_space ?s = ?s" "\<not> starts_with '']'' ?s" using c by (auto simp: skip_space_start)
      have "json_items m ?s = Inr (xs, r)"
        by (rule json_items_dumps) (use Arr Cons n m in \<open>auto simp: list_all_iff\<close>)
      with s m show ?thesis by simp
    qed
  qed
next
  case (Obj d)
  show ?case unfolding reads_def
  proof (intro allI impI)
    fix n :: nat and r :: string
    assume n: "2 * length (dumps (JObj d)) \<le> n" and r: "stops r"
    obtain m where m: "n = Suc m" using n by (cases n) auto
    show "json_value n (dumps (JObj d) @ r) = Inr (JObj d, r)"
    proof (cases d)
      case Nil
      with m show ?thesis by (simp add: skip_stop)
    next
      case (Cons kv d')
      let ?s = "join '', '' (map (\<lambda>(k, v). dumps_str k @ '': '' @ dumps v) d) @ CHR ''}'' # r"
      have "\<exists>q. ?s = CHR 0x22 # q" using Cons by (cases kv; cases d') (simp_all add: join_Cons dumps_str_def)
      then have s: "skip_space ?s = ?s" "\<not> starts_with ''}'' ?s" by (auto simp: skip_stop)
      have "json_members m ?s = Inr (d, r)"
      proof (rule json_members_dumps)
        show "reads v \<and> plain v" if "(k, v) \<in> set d" for k v
        proof -
          have "plain v" using Obj(2) that by (auto simp: list_all_iff)
          with Obj(1) [OF that refl] show ?thesis by simp
        qed
      qed (use Cons n m in simp_all)
      moreover have "fold (\<lambda>(k, v). AList.update k v) d [] = d"
        using update_distinct [of "[]" d] Obj by simp
      ultimately show ?thesis using s m by simp
    qed
  qed
next
  case Null
  show ?case by (rule reads_words)
next
  case (Bool b)
  show ?case by (cases b) (simp_all add: reads_words)
next
  case (Int i)
  show ?case by (rule reads_number) (simp_all add: json_number_int_str)
next
  case (Str s)
  show ?case by (rule reads_str)
qed

text \<open>Reading back what was written, as text and as bytes.\<close>

theorem loads_dumps: "plain j \<Longrightarrow> loads (dumps j) = Inr j"
proof -
  assume p: "plain j"
  obtain c t where "dumps j = c # t" "\<not> json_space c" using dumps_start [OF p] by blast
  then have s: "skip_space (dumps j) = dumps j" by (simp add: skip_space_start)
  have "json_value (2 * length (dumps j) + 2) (dumps j @ []) = Inr (j, [])"
    by (rule reads_D [OF reads_all [OF p]]) simp_all
  then show ?thesis by (simp add: loads_def s skip_nil del: json_value.simps)
qed

theorem loads_bytes_dumps: "plain j \<Longrightarrow> loads_bytes (utf8_encode (dumps j)) = Inr j"
  by (simp add: loads_bytes_def utf8_roundtrip loads_dumps)

end
