(* ===== verification/Collector.thy ===== *)
theory Collector
  imports DerpView TailnetAuth JsonText
begin

text \<open>
  The HTTP handler of the collector, \<open>make_metrics_handler\<close> of \<open>node-dedup/dedup.py\<close>: \<open>_authed\<close>,
  \<open>_send\<close>, \<open>_sendhtml\<close>, \<open>do_POST\<close> and \<open>do_GET\<close> as functions from a request and the database to a
  response and the database. An exception that leaves a handler (the server then drops the
  connection) is an \<open>Inl\<close>. The body of a request is the bytes its connection gives; one with
  characters beyond Latin-1 is outside the model.
\<close>

subsection \<open>Requests and responses\<close>

record http_request =
  rq_client :: string
  rq_path :: string
  rq_length :: "string option"
  rq_body :: string

datatype response = Response (rs_status: int) (rs_type: string) (rs_body: string)

definition send_json :: "int \<Rightarrow> json \<Rightarrow> response" where
  "send_json status payload = Response status ''application/json'' (dumps payload)"

lemma send_json_status [simp]: "rs_status (send_json status payload) = status"
  by (simp add: send_json_def)

definition send_html :: "int \<Rightarrow> string \<Rightarrow> response" where
  "send_html status body = Response status ''text/html; charset=utf-8'' body"

definition error_json :: "string \<Rightarrow> json" where
  "error_json msg = JObj [(''error'', JStr msg)]"

text \<open>\<open>str(e)\<close> of the exceptions \<open>validate_report\<close> raises.\<close>

definition exn_text :: "pyexn \<Rightarrow> string" where
  "exn_text e =
     (case e of ValueError m \<Rightarrow> m | OverflowError \<Rightarrow> ''int too large to convert to float'' | _ \<Rightarrow> [])"

definition authed :: "http_request \<Rightarrow> bool" where
  "authed rq = is_allowed_report_src (rq_client rq)"

text \<open>\<open>self.path.split("?")[0].rstrip("/")\<close>.\<close>

definition route :: "string \<Rightarrow> string" where
  "route path = rstrip_char (CHR ''/'') (hd (split_char (CHR ''?'') path))"

text \<open>\<open>int(self.headers.get("Content-Length", "0") or "0")\<close>, and
  \<open>json.loads(raw.decode() or "{}")\<close> of that many bytes.\<close>

definition content_length :: "http_request \<Rightarrow> int res" where
  "content_length rq =
     (let h = (case rq_length rq of None \<Rightarrow> ''0'' | Some s \<Rightarrow> if s = [] then ''0'' else s) in
      py_int (JStr h))"

definition request_json :: "http_request \<Rightarrow> int \<Rightarrow> json res" where
  "request_json rq n =
     (let raw = (if 0 < n then take (nat n) (rq_body rq) else ''{}'') in
      rbind (utf8_decode raw) (\<lambda>t. loads (if t = [] then ''{}'' else t)))"

subsection \<open>POST\<close>

definition post_report :: "json \<Rightarrow> int \<Rightarrow> db \<Rightarrow> response \<times> db" where
  "post_report body now d =
     (case validate_report body of
        Inl e \<Rightarrow> (send_json 400 (error_json (exn_text e)), d)
      | Inr rep \<Rightarrow>
          (case record_report rep now d of
             (d', stored) \<Rightarrow>
               (send_json 200 (JObj [(''ok'', JBool True), (''stored'', JInt (int stored))]), d')))"

definition post_netcheck :: "json \<Rightarrow> int \<Rightarrow> db \<Rightarrow> response res \<times> db" where
  "post_netcheck body now d =
     (case body of
        JObj b \<Rightarrow>
          (let client = text_field b ''hostname''; preferred = text_field b ''preferred_derp'';
               lat = dget b ''region_latency'' (JObj [])
           in if client = [] then (Inr (send_json 400 (error_json ''thieu hostname'')), d)
              else if \<not> is_obj lat
              then (Inr (send_json 400 (error_json ''region_latency phai la object'')), d)
              else (Inr (send_json 200 (JObj [(''ok'', JBool True)])),
                    record_netcheck client preferred (dumps lat) now d))
      | _ \<Rightarrow> (Inl AttributeError, d))"

definition do_POST :: "http_request \<Rightarrow> int \<Rightarrow> db \<Rightarrow> response res \<times> db" where
  "do_POST rq now d =
     (if \<not> authed rq then (Inr (send_json 401 (error_json ''unauthorized'')), d)
      else case content_length rq of
        Inl e \<Rightarrow> (Inl e, d)
      | Inr n \<Rightarrow>
          (case request_json rq n of
             Inl e \<Rightarrow>
               (if e = OutOfSchema then (Inl OutOfSchema, d)
                else (Inr (send_json 400 (error_json ''JSON khong hop le'')), d))
           | Inr body \<Rightarrow>
               if route (rq_path rq) = ''/metrics/report''
               then (case post_report body now d of (r, d') \<Rightarrow> (Inr r, d'))
               else if route (rq_path rq) = ''/metrics/netcheck'' then post_netcheck body now d
               else (Inr (send_json 404 (error_json ''not found'')), d)))"

subsection \<open>Query strings\<close>

definition percent_escape :: "string \<Rightarrow> bool" where
  "percent_escape s = (2 \<le> length s \<and> is_hex (s ! 0) \<and> is_hex (s ! 1))"

text \<open>
  \<open>urllib.parse.unquote\<close>: escapes below 128 are characters; a higher one starts a UTF-8 sequence,
  which the model does not decode.
\<close>

fun unquote :: "string \<Rightarrow> string res" where
  "unquote [] = Inr []"
| "unquote (c # s) =
     (if c = CHR ''%'' \<and> percent_escape s then
        (let v = 16 * hex_val (s ! 0) + hex_val (s ! 1) in
         if v < 128 then rbind (unquote (drop 2 s)) (\<lambda>t. Inr (char_of v # t)) else Inl OutOfSchema)
      else rbind (unquote s) (\<lambda>t. Inr (c # t)))"

definition form_text :: "string \<Rightarrow> string res" where
  "form_text s = unquote (replace_all ''+'' '' '' s)"

text \<open>\<open>urllib.parse.parse_qs\<close>: items without \<open>=\<close> or with an empty value are left out.\<close>

definition query_item :: "string \<Rightarrow> (string \<times> string) option res" where
  "query_item nv =
     (case split1 ''='' nv of
        (a, None) \<Rightarrow> Inr None
      | (a, Some b) \<Rightarrow>
          if b = [] then Inr None
          else rbind (form_text a) (\<lambda>k. rbind (form_text b) (\<lambda>v. Inr (Some (k, v)))))"

definition parse_qs :: "string \<Rightarrow> (string \<times> string list) list res" where
  "parse_qs q =
     rbind (rmap query_item (split_char (CHR ''&'') q)) (\<lambda>os.
       Inr (map (\<lambda>(k, kvs). (k, map snd kvs)) (group_by fst (somes os))))"

text \<open>\<open>urlparse(path).query\<close> of a path that begins with one slash.\<close>

definition url_query :: "string \<Rightarrow> string" where
  "url_query path =
     (case split1 ''?'' (takeWhile (\<lambda>c. c \<noteq> CHR ''#'') path) of
        (a, None) \<Rightarrow> [] | (a, Some q) \<Rightarrow> q)"

text \<open>\<open>qs.get(k, [d])[0]\<close>.\<close>

definition qs_first :: "(string \<times> string list) list \<Rightarrow> string \<Rightarrow> string \<Rightarrow> string" where
  "qs_first qs k d = (case map_of qs k of None \<Rightarrow> d | Some vs \<Rightarrow> hd vs)"

subsection \<open>GET\<close>

record config =
  cf_window :: int
  cf_probe_urls :: string

record surroundings =
  su_now :: int
  su_now2 :: int
  su_status :: json
  su_fetch :: "string \<Rightarrow> fetch_result"
  su_gen :: string
  su_dash :: char

text \<open>A number SQLite cannot take as an INTEGER raises \<open>OverflowError\<close> when it is bound.\<close>

definition latency_rows :: "int \<Rightarrow> int \<Rightarrow> db \<Rightarrow> latency list res" where
  "latency_rows now w d =
     (if - (2 ^ 63) \<le> now - w \<and> now - w < 2 ^ 63 then Inr (query_latency now w d) else Inl OverflowError)"

definition get_latency :: "config \<Rightarrow> surroundings \<Rightarrow> db \<Rightarrow> response res" where
  "get_latency cf su d =
     rbind (latency_rows (su_now su) (cf_window cf) d) (\<lambda>rows.
       Inr (send_json 200 (JObj [(''window_s'', JInt (cf_window cf)),
         (''pairs'', JArr (map json_of_stat (aggregate_latency rows)))])))"

definition health_expect :: "(string \<times> string list) list \<Rightarrow> string list" where
  "health_expect qs =
     filter (\<lambda>s. s \<noteq> []) (map strip (split_char (CHR '','') (qs_first qs ''expect'' [])))"

definition health_window :: "(string \<times> string list) list \<Rightarrow> int" where
  "health_window qs =
     (let v = qs_first qs ''window'' ''180'' in
      case parse_int (if v = [] then ''180'' else v) of None \<Rightarrow> 180 | Some w \<Rightarrow> w)"

definition get_health :: "string \<Rightarrow> surroundings \<Rightarrow> db \<Rightarrow> response res" where
  "get_health path su d =
     rbind (parse_qs (url_query path)) (\<lambda>qs.
       let expect = health_expect qs; window = health_window qs in
       rbind (latency_rows (su_now su) (max window 1) d) (\<lambda>rows.
         let stale = stale_reporters rows expect (su_now2 su) window in
         Inr (send_json (if stale = [] then 200 else 503)
           (JObj [(''ok'', JBool (stale = [])), (''stale'', JArr (map JStr stale)),
             (''expected'', JArr (map JStr expect)), (''window_s'', JInt window)]))))"

definition get_stats :: "config \<Rightarrow> surroundings \<Rightarrow> db \<Rightarrow> response res" where
  "get_stats cf su d =
     rbind (latency_rows (su_now su) (cf_window cf) d) (\<lambda>rows.
       Inr (send_html 200 (render_stats_html (aggregate_latency rows) (latency_series rows)
         (query_devices d) (cf_window cf) (su_now2 su))))"

definition get_derp :: "config \<Rightarrow> surroundings \<Rightarrow> db \<Rightarrow> response res" where
  "get_derp cf su d =
     (let regions = map (probe_derp_region (su_fetch su)) (parse_derp_regions (cf_probe_urls cf)) in
      rbind (peer_relay_from_status (su_status su)) (\<lambda>ps.
        Inr (send_html 200 (render_derp_html (su_dash su) regions ps (su_now2 su) (su_gen su)
          (query_all_server_pings (su_now su) 180 d)))))"

definition do_GET :: "config \<Rightarrow> http_request \<Rightarrow> surroundings \<Rightarrow> db \<Rightarrow> response res" where
  "do_GET cf rq su d =
     (let p = route (rq_path rq) in
      if p = ''/metrics/latency'' then get_latency cf su d
      else if p = ''/metrics/health'' then get_health (rq_path rq) su d
      else if p \<in> {''/stats'', ''/metrics/stats'', ''/metrics/dashboard'', []} then get_stats cf su d
      else if p \<in> {''/derp'', ''/derp-status''} then get_derp cf su d
      else Inr (send_json 404 (error_json ''not found'')))"

subsection \<open>Writes\<close>

lemma post_one_write:
  assumes "do_POST rq now d = (r, d')"
  shows "d' = d \<or>
    (authed rq \<and> route (rq_path rq) \<in> {''/metrics/report'', ''/metrics/netcheck''}
     \<and> (\<exists>resp. r = Inr resp \<and> rs_status resp = 200) \<and> db_step (now, d) (now, d'))"
proof (cases "d' = d")
  case False
  obtain n body where h: "authed rq" "content_length rq = Inr n" "request_json rq n = Inr body"
    using assms False by (auto simp: do_POST_def split: if_splits sum.splits)
  consider (report) "route (rq_path rq) = ''/metrics/report''"
    | (netcheck) "route (rq_path rq) = ''/metrics/netcheck''" "route (rq_path rq) \<noteq> ''/metrics/report''"
    using assms False h by (auto simp: do_POST_def split: if_splits)
  then show ?thesis
  proof cases
    case report
    then obtain resp where p: "post_report body now d = (resp, d')" "r = Inr resp"
      using assms h by (auto simp: do_POST_def split: prod.splits)
    then obtain rep where v: "validate_report body = Inr rep" and e: "d' = fst (record_report rep now d)"
      "rs_status resp = 200"
      using False by (auto simp: post_report_def split: sum.splits prod.splits)
    then have "db_step (now, d) (now, d')" using db_step.reported [OF v] by simp
    with report h p e show ?thesis by simp
  next
    case netcheck
    then have p: "post_netcheck body now d = (r, d')" using assms h by (simp add: do_POST_def)
    then obtain b where b: "body = JObj b" "text_field b ''hostname'' \<noteq> []"
      "d' = record_netcheck (text_field b ''hostname'') (text_field b ''preferred_derp'')
         (dumps (dget b ''region_latency'' (JObj []))) now d"
      "r = Inr (send_json 200 (JObj [(''ok'', JBool True)]))"
      using False by (auto simp: post_netcheck_def Let_def split: json.splits if_splits)
    have "clean (text_field b ''hostname'')" using b(2) by (simp add: clean_def)
    then have "db_step (now, d) (now, d')" unfolding b(3) by (rule db_step.netchecked)
    with netcheck h b(4) show ?thesis by simp
  qed
qed simp

lemma post_history:
  "do_POST rq now d = (r, d') \<Longrightarrow> db_step\<^sup>*\<^sup>* (now, d) (now, d')"
  by (drule post_one_write) auto

text \<open>C9: A POST changes the database only when the client address is allowed, the route is one of the two
  it serves and the answer is 200, and then by exactly one of the writes of a report or a netcheck;
  in every other case, an exception included, the database is as it was.\<close>

theorem post_writes_one_step:
  assumes "do_POST rq now d = (r, d')"
  shows "d' = d \<or>
    (authed rq \<and> route (rq_path rq) \<in> {''/metrics/report'', ''/metrics/netcheck''}
     \<and> (\<exists>resp. r = Inr resp \<and> rs_status resp = 200) \<and> db_step (now, d) (now, d'))"
  using assms by (rule post_one_write)


definition sample_post :: http_request where
  "sample_post = \<lparr>rq_client = ''100.64.0.7'', rq_path = ''/metrics/report/?x=1'',
     rq_length = Some ''80'', rq_body = dumps sample_report\<rparr>"

lemma sample_post_facts:
  "authed sample_post" "content_length sample_post = Inr 80"
  "route (rq_path sample_post) = ''/metrics/report''" "request_json sample_post 80 = Inr sample_report"
proof -
  have "''100.64.0.7'' = dotted 100 64 0 7" by code_simp
  then show "authed sample_post" by (simp add: authed_def sample_post_def allowed_dotted allowed_v4_def)
  show "content_length sample_post = Inr 80" "route (rq_path sample_post) = ''/metrics/report''"
    "request_json sample_post 80 = Inr sample_report"
    by code_simp+
qed


theorem post_writes_one_step_witness:
  "db_step (50, empty_db) (50, snd (do_POST sample_post 50 empty_db))
   \<or> snd (do_POST sample_post 50 empty_db) = empty_db"
  using post_writes_one_step [of sample_post 50 empty_db "fst (do_POST sample_post 50 empty_db)"
      "snd (do_POST sample_post 50 empty_db)"] by auto

subsection \<open>Health\<close>


definition quiet :: surroundings where
  "quiet = \<lparr>su_now = 100, su_now2 = 100, su_status = JNull, su_fetch = (\<lambda>u. Inl ''down''),
     su_gen = [], su_dash = CHR ''-''\<rparr>"

definition vpn3_db :: db where
  "vpn3_db = empty_db\<lparr>latencies := [\<lparr>lt_ts = 90, lt_src = ''vpn3'', lt_dst = ''b'', lt_dst_ip = [],
     lt_rtt = None, lt_path = [], lt_ok = False\<rparr>]\<rparr>"


text \<open>Reading never fails for lack of data: every GET of the latency, the statistics or an unknown path
  answers, with 404 only for paths the collector does not serve, as long as the configured window
  keeps the time bound in SQLite's range.\<close>

theorem get_answers:
  assumes "- (2 ^ 63) \<le> su_now su - cf_window cf" and "su_now su - cf_window cf < 2 ^ 63"
    and "route (rq_path rq) \<notin> {''/metrics/health'', ''/derp'', ''/derp-status''}"
  shows "\<exists>resp. do_GET cf rq su d = Inr resp
    \<and> rs_status resp = (if route (rq_path rq) \<in>
        {''/metrics/latency'', ''/stats'', ''/metrics/stats'', ''/metrics/dashboard'', []} then 200 else 404)"
  using assms
  by (simp add: do_GET_def Let_def get_latency_def get_stats_def latency_rows_def send_html_def)

definition home_request :: http_request where
  "home_request = \<lparr>rq_client = ''8.8.8.8'', rq_path = ''/'', rq_length = None, rq_body = []\<rparr>"

theorem get_answers_witness:
  "\<exists>resp. do_GET \<lparr>cf_window = 3600, cf_probe_urls = []\<rparr> home_request quiet empty_db = Inr resp
     \<and> rs_status resp = 200"
proof -
  have "route (rq_path home_request) = []" by code_simp
  then show ?thesis
    using get_answers [of quiet "\<lparr>cf_window = 3600, cf_probe_urls = []\<rparr>" home_request empty_db]
    by (simp add: quiet_def)
qed

end
