(* ===== verification/LocalApi.thy ===== *)
theory LocalApi
  imports Report PyLoads
begin

text \<open>
  The two sides of the ping traffic that \<open>node-dedup/dedup.py\<close> and \<open>ping-reporter/reporter.py\<close> share:
  calls to the LocalAPI of the tailscale sidecar (\<open>localapi_ping\<close>, \<open>localapi_status\<close>, \<open>_localapi\<close>) and
  the report payload they post. The socket exchange is a parameter: it gives no reply (any exception)
  or a status with the bytes of the body. Python's \<open>None\<close> is \<open>JNull\<close>; a body outside the model stays so.
\<close>

datatype reply = NoReply | Reply (rp_status: int) (rp_raw: string)

definition localapi_answer :: "reply \<Rightarrow> json res" where
  "localapi_answer r =
     (case r of
        NoReply \<Rightarrow> Inr JNull
      | Reply st raw \<Rightarrow>
          (if st \<noteq> 200 then Inr JNull
           else case loads_any (if raw = [] then ''{}'' else raw) of
             Inr j \<Rightarrow> Inr j
           | Inl e \<Rightarrow> if e = OutOfSchema then Inl OutOfSchema else Inr JNull))"

type_synonym exchange = "string \<Rightarrow> string \<Rightarrow> reply"

definition ping_url :: "string \<Rightarrow> string \<Rightarrow> string" where
  "ping_url ip ptype = ''/localapi/v0/ping?ip='' @ ip @ ''&type='' @ ptype"

definition localapi_ping :: "exchange \<Rightarrow> string \<Rightarrow> json res" where
  "localapi_ping ex ip = localapi_answer (ex ''POST'' (ping_url ip ''disco''))"

definition localapi_status :: "exchange \<Rightarrow> json res" where
  "localapi_status ex = localapi_answer (ex ''GET'' ''/localapi/v0/status'')"

subsection \<open>Report payloads\<close>

definition json_of_sample :: "sample \<Rightarrow> json" where
  "json_of_sample s =
     JObj [(''dst'', JStr (s_dst s)), (''dst_ip'', JStr (s_dst_ip s)), (''rtt_ms'', json_of_rtt (s_rtt s)),
       (''path'', JStr (s_path s)), (''ok'', JBool (s_ok s))]"

definition report_payload :: "string \<Rightarrow> sample list \<Rightarrow> json" where
  "report_payload name ss =
     JObj [(''hostname'', JStr name), (''ipv4'', JStr []), (''mac'', JStr []),
       (''samples'', JArr (map json_of_sample ss))]"

lemma validate_json_of_sample: "wf_sample s \<Longrightarrow> validate_sample (json_of_sample s) = Inr (Some s)"
  by (cases "s_rtt s")
    (auto simp: validate_sample_def json_of_sample_def text_field_def dget_def wf_sample_def clean_def
      sample_rtt_def json_of_rtt_def Let_def)

text \<open>A checked report is a fixed point: what one side posts, the collector stores unchanged.\<close>

lemma validate_report_payload:
  assumes "clean name" and "list_all wf_sample ss"
  shows "validate_report (report_payload name ss) =
    Inr \<lparr>rep_hostname = name, rep_ipv4 = [], rep_mac = [], rep_samples = ss\<rparr>"
proof -
  have "rmap validate_sample (map json_of_sample ss)
      = Inr (map (\<lambda>j. projr (validate_sample j)) (map json_of_sample ss))"
    by (rule rmap_total) (use assms(2) in \<open>auto simp: list_all_iff validate_json_of_sample\<close>)
  moreover have "map (\<lambda>j. projr (validate_sample j)) (map json_of_sample ss) = map Some ss"
    using assms(2) by (simp add: list_all_iff validate_json_of_sample)
  ultimately have r: "rmap validate_sample (map json_of_sample ss) = Inr (map Some ss)" by simp
  have s: "somes (map Some ss) = ss" using somes_map_Some [of "\<lambda>x. x" ss] by (simp only: list.map_ident)
  have p: "py_or (JArr (map json_of_sample ss)) (JArr []) = JArr (map json_of_sample ss)"
    by (simp add: py_or_def)
  have e: "strip [] = []" by (simp add: strip_eq_self)
  show ?thesis using assms(1) r s p e
    by (simp add: validate_report_def report_payload_def text_field_def dget_def clean_def is_obj_def)
qed

end
