(* ===== verification/Poll.thy ===== *)
theory Poll
  imports Collector LocalApi
begin

text \<open>
  One round of the poll loop of \<open>node-dedup/dedup.py\<close> (\<open>main\<close> and \<open>_forward_to_dashboard\<close>): fetch the
  nodes, upsert the devices, ping the live ones and store and forward the samples, approve the
  routes, then apply the plan. The Headscale server is the parameter \<open>srv\<close>: whether a request raises,
  given the requests the round has made before it. A round never raises: what the loop's handlers
  catch is kept in \<open>rd_error\<close>, and the writes made before it stay.
\<close>

record poll_config =
  pc_src :: string
  pc_dry_run :: bool
  pc_auto_approve :: bool
  pc_center_url :: string

type_synonym server = "request list \<Rightarrow> request \<Rightarrow> pyexn option"

record round_result =
  rd_db :: db
  rd_requests :: "request list"
  rd_forward :: "(string \<times> json) option"
  rd_error :: "pyexn option"

definition approve_request :: "string \<times> string list \<Rightarrow> request" where
  "approve_request a =
     Request ''POST'' (''/api/v1/node/'' @ fst a @ ''/approve_routes'')
       (Some (JObj [(''routes'', JArr (map JStr (snd a)))]))"

text \<open>What \<open>_api\<close> makes of the bytes of a reply.\<close>

definition api_json :: "string res \<Rightarrow> json res" where
  "api_json answer =
     rbind answer (\<lambda>raw. rbind (utf8_decode raw) (\<lambda>resp.
       if strip resp = [] then Inr (JObj []) else loads resp))"

text \<open>\<open>raw = _api("GET", "/api/v1/node").get("nodes", [])\<close>, which the loops then iterate.\<close>

definition raw_nodes :: "string res \<Rightarrow> json list res" where
  "raw_nodes answer =
     rbind (api_json answer) (\<lambda>j. rbind (jget j ''nodes'' (JArr [])) (\<lambda>v.
       case v of JArr xs \<Rightarrow> Inr xs | JObj d \<Rightarrow> Inr (map (JStr \<circ> fst) d)
         | JStr s \<Rightarrow> Inr (map (\<lambda>c. JStr [c]) s) | _ \<Rightarrow> Inl TypeError))"

definition forward_to_dashboard ::
    "poll_config \<Rightarrow> sample list \<Rightarrow> (string \<times> json) option res" where
  "forward_to_dashboard pc ss =
     (if pc_center_url pc = [] \<or> ss = [] then Inr None
      else let url = pc_center_url pc @ ''/api/metrics/report'' in
        if has_scheme url then Inr (Some (url, report_payload (pc_src pc) ss))
        else Inl (ValueError ''unknown url type''))"

text \<open>The approval loop: an exception of one call is logged and the loop goes on.\<close>

fun approve_all :: "poll_config \<Rightarrow> (string \<times> string list) list \<Rightarrow> request list \<Rightarrow> request list" where
  "approve_all pc [] sent = sent"
| "approve_all pc (a # rest) sent =
     approve_all pc rest (if pc_dry_run pc then sent else sent @ [approve_request a])"

text \<open>The plan loop: the first call that raises leaves the round.\<close>

fun apply_all ::
    "server \<Rightarrow> poll_config \<Rightarrow> action list \<Rightarrow> request list \<Rightarrow> request list \<times> pyexn option" where
  "apply_all srv pc [] sent = (sent, None)"
| "apply_all srv pc (a # rest) sent =
     (case a of
        Skip _ _ _ \<Rightarrow> apply_all srv pc rest sent
      | _ \<Rightarrow>
          if pc_dry_run pc then apply_all srv pc rest sent
          else (case apply_action a of
                  None \<Rightarrow> apply_all srv pc rest sent
                | Some rq \<Rightarrow>
                    (case srv sent rq of
                       Some e \<Rightarrow> (sent @ [rq], Some e)
                     | None \<Rightarrow> apply_all srv pc rest (sent @ [rq]))))"

definition failed_round :: "db \<Rightarrow> (string \<times> json) option \<Rightarrow> request list \<Rightarrow> pyexn \<Rightarrow> round_result" where
  "failed_round d fwd reqs e = \<lparr>rd_db = d, rd_requests = reqs, rd_forward = fwd, rd_error = Some e\<rparr>"

definition route_plan :: "poll_config \<Rightarrow> json list \<Rightarrow> (string \<times> string list) list res" where
  "route_plan pc raw = (if pc_auto_approve pc then plan_route_approvals raw else Inr [])"

definition poll_round ::
    "poll_config \<Rightarrow> server \<Rightarrow> (string \<Rightarrow> json) \<Rightarrow> int \<Rightarrow> int \<Rightarrow> string res \<Rightarrow> db \<Rightarrow> round_result" where
  "poll_round pc srv ping_fn now now2 answer d =
     (case rbind (raw_nodes answer) (\<lambda>raw. rbind (normalize raw) (\<lambda>nodes. Inr (raw, nodes))) of
        Inl e \<Rightarrow> failed_round d None [] e
      | Inr (raw, nodes) \<Rightarrow>
          (let d1 = upsert_db now nodes d in
           case server_ping_all (pc_src pc) nodes ping_fn of
             Inl e \<Rightarrow> failed_round d1 None [] e
           | Inr ss \<Rightarrow>
               (let d2 = (if ss = [] then d1 else fst (record_samples (pc_src pc) ss now2 d1)) in
                case forward_to_dashboard pc ss of
                  Inl e \<Rightarrow> failed_round d2 None [] e
                | Inr fwd \<Rightarrow>
                    (case route_plan pc raw of
                       Inl e \<Rightarrow> failed_round d2 fwd [] e
                     | Inr approvals \<Rightarrow>
                         (case apply_all srv pc (plan_actions nodes) (approve_all pc approvals []) of
                            (reqs, err) \<Rightarrow>
                              \<lparr>rd_db = d2, rd_requests = reqs, rd_forward = fwd, rd_error = err\<rparr>)))))"

subsection \<open>Facts\<close>

definition plan_requests :: "action list \<Rightarrow> request list" where
  "plan_requests acts = somes (map apply_action acts)"

lemma approve_all_simp:
  "approve_all pc rest sent = sent @ (if pc_dry_run pc then [] else map approve_request rest)"
  by (induction rest arbitrary: sent) auto

lemma apply_all_dry: "pc_dry_run pc \<Longrightarrow> apply_all srv pc acts sent = (sent, None)"
  by (induction acts) (auto split: action.split)

lemma apply_all_prefix:
  assumes "apply_all srv pc acts sent = (reqs, err)" and "\<not> pc_dry_run pc"
  shows "\<exists>k. reqs = sent @ take k (plan_requests acts)
    \<and> (err = None \<longrightarrow> reqs = sent @ plan_requests acts)"
  using assms(1)
proof (induction acts arbitrary: "sent")
  case Nil
  then show ?case by (simp add: plan_requests_def)
next
  case (Cons a acts)
  show ?case
  proof (cases "apply_action a")
    case None
    then have "apply_all srv pc acts sent = (reqs, err)"
      using Cons.prems by (auto simp: apply_action_def split: action.splits)
    with Cons.IH None show ?thesis by (simp add: plan_requests_def)
  next
    case (Some rq)
    then have c: "(case srv sent rq of Some e \<Rightarrow> (sent @ [rq], Some e)
        | None \<Rightarrow> apply_all srv pc acts (sent @ [rq])) = (reqs, err)"
      using Cons.prems assms(2) by (auto simp: apply_action_def split: action.splits)
    show ?thesis
    proof (cases "srv sent rq")
      case None
      with c have "apply_all srv pc acts (sent @ [rq]) = (reqs, err)" by simp
      from Cons.IH [OF this] obtain k where
        "reqs = (sent @ [rq]) @ take k (plan_requests acts)"
        "err = None \<longrightarrow> reqs = (sent @ [rq]) @ plan_requests acts" by blast
      with Some show ?thesis by (intro exI [of _ "Suc k"]) (simp add: plan_requests_def)
    next
      case (Some e)
      with c \<open>apply_action a = Some rq\<close> show ?thesis
        by (intro exI [of _ 1]) (auto simp: plan_requests_def)
    qed
  qed
qed

subsection \<open>Properties of a round\<close>

text \<open>How a round can have run: how far it got, and with which nodes, samples and approvals.\<close>

lemma poll_round_cases:
  assumes "poll_round pc srv f now now2 answer d = rd"
  obtains (no_nodes) e where "rd = failed_round d None [] e"
    | (no_pings) nodes e where "rd = failed_round (upsert_db now nodes d) None [] e"
    | (pinged) raw nodes ss d2 fwd reqs err where
        "raw_nodes answer = Inr raw" "normalize raw = Inr nodes" "server_ping_all (pc_src pc) nodes f = Inr ss"
        "d2 = (if ss = [] then upsert_db now nodes d
               else fst (record_samples (pc_src pc) ss now2 (upsert_db now nodes d)))"
        "rd = \<lparr>rd_db = d2, rd_requests = reqs, rd_forward = fwd, rd_error = err\<rparr>"
        "reqs = [] \<or> (\<exists>approvals. route_plan pc raw = Inr approvals
           \<and> apply_all srv pc (plan_actions nodes) (approve_all pc approvals []) = (reqs, err))"
        "fwd = None \<or> forward_to_dashboard pc ss = Inr fwd"
proof (cases "rbind (raw_nodes answer) (\<lambda>raw. rbind (normalize raw) (\<lambda>nodes. Inr (raw, nodes)))")
  case (Inl e)
  then show ?thesis using assms by (intro no_nodes [of e]) (simp add: poll_round_def)
next
  case (Inr rn)
  obtain raw nodes where rn: "rn = (raw, nodes)" by (cases rn)
  with Inr have n: "raw_nodes answer = Inr raw" "normalize raw = Inr nodes"
    by (auto simp: res_simps)
  show ?thesis
  proof (cases "server_ping_all (pc_src pc) nodes f")
    case (Inl e)
    then show ?thesis using assms n by (intro no_pings [of nodes e]) (simp add: poll_round_def Let_def)
  next
    case (Inr ss)
    show ?thesis
    proof (cases "forward_to_dashboard pc ss")
      case (Inl e)
      then show ?thesis
        using assms n Inr by (intro pinged [of raw nodes ss]) (auto simp: poll_round_def Let_def failed_round_def)
    next
      case fwd: (Inr fwd)
      show ?thesis
      proof (cases "route_plan pc raw")
        case (Inl e)
        then show ?thesis
          using assms n Inr fwd
          by (intro pinged [of raw nodes ss]) (auto simp: poll_round_def Let_def failed_round_def)
      next
        case a: (Inr approvals)
        obtain reqs err where "apply_all srv pc (plan_actions nodes) (approve_all pc approvals []) = (reqs, err)"
          by (cases "apply_all srv pc (plan_actions nodes) (approve_all pc approvals [])")
        then show ?thesis
          using assms n Inr fwd a by (intro pinged [of raw nodes ss]) (auto simp: poll_round_def Let_def)
      qed
    qed
  qed
qed

text \<open>With DRY_RUN a round sends no request to Headscale besides reading the nodes, whatever the
  nodes, the routes and the server are.\<close>

theorem dry_run_sends_nothing:
  assumes "pc_dry_run pc"
  shows "rd_requests (poll_round pc srv f now now2 answer d) = []"
proof (rule poll_round_cases [OF refl, of pc srv f now now2 answer d])
  fix raw nodes ss d2 fwd reqs err
  assume r: "poll_round pc srv f now now2 answer d
      = \<lparr>rd_db = d2, rd_requests = reqs, rd_forward = fwd, rd_error = err\<rparr>"
    and "reqs = [] \<or> (\<exists>approvals. route_plan pc raw = Inr approvals
           \<and> apply_all srv pc (plan_actions nodes) (approve_all pc approvals []) = (reqs, err))"
  then have "reqs = []" using assms by (auto simp: apply_all_dry approve_all_simp)
  with r show ?thesis by simp
qed (simp_all add: failed_round_def)

definition live_config :: poll_config where
  "live_config = \<lparr>pc_src = ''collector'', pc_dry_run = False, pc_auto_approve = True, pc_center_url = []\<rparr>"

definition nodes_answer :: "string res" where
  "nodes_answer = Inr (utf8_encode (dumps (JObj [(''nodes'', JArr (map (node_json True) busy_pair))])))"

lemma api_json_dumps: "plain (JObj d) \<Longrightarrow> api_json (Inr (utf8_encode (dumps (JObj d)))) = Inr (JObj d)"
  using loads_dumps [of "JObj d"] by (auto simp: api_json_def utf8_roundtrip strip_Nil_iff is_space_def)

lemma nodes_answer_json: "api_json nodes_answer = Inr (JObj [(''nodes'', JArr (map (node_json True) busy_pair))])"
  unfolding nodes_answer_def by (rule api_json_dumps) code_simp

theorem dry_run_sends_nothing_witness:
  "rd_requests (poll_round (live_config\<lparr>pc_dry_run := True\<rparr>) (\<lambda>h r. None) (\<lambda>ip. JNull) 5 6 nodes_answer empty_db) = []"
  by (rule dry_run_sends_nothing) simp



text \<open>A round writes the database only as the history of writes allows, one write after the other,
  however it ends.\<close>

theorem round_is_a_history:
  assumes "now \<le> now2"
  shows "db_step\<^sup>*\<^sup>* (now, d) (now2, rd_db (poll_round pc srv f now now2 answer d))"
proof -
  have t: "db_step\<^sup>*\<^sup>* (now, e) (now2, e)" for e
    by (rule r_into_rtranclp) (rule db_step.tick [OF assms])
  have u: "db_step\<^sup>*\<^sup>* (now, d) (now2, upsert_db now nodes d)" for nodes
    by (rule converse_rtranclp_into_rtranclp [OF db_step.poll t])
  show ?thesis
  proof (rule poll_round_cases [OF refl, of pc srv f now now2 answer d])
    fix raw nodes ss d2 fwd reqs err
    assume s: "server_ping_all (pc_src pc) nodes f = Inr ss"
      and d2: "d2 = (if ss = [] then upsert_db now nodes d
               else fst (record_samples (pc_src pc) ss now2 (upsert_db now nodes d)))"
      and r: "poll_round pc srv f now now2 answer d
        = \<lparr>rd_db = d2, rd_requests = reqs, rd_forward = fwd, rd_error = err\<rparr>"
    have "db_step\<^sup>*\<^sup>* (now, d) (now2, d2)"
      using u [of nodes] rtranclp.rtrancl_into_rtrancl [OF u [of nodes] db_step.pings [OF s]]
      by (simp add: d2)
    then show ?thesis by (simp add: r)
  qed (use t u in \<open>simp_all add: failed_round_def\<close>)
qed

theorem round_is_a_history_witness:
  "db_step\<^sup>*\<^sup>* (5, empty_db)
     (6, rd_db (poll_round live_config (\<lambda>h r. None) (\<lambda>ip. JNull) 5 6 nodes_answer empty_db))"
  by (rule round_is_a_history) simp

end
