(* ===== verification/Service.thy ===== *)
theory Service
  imports Poll
begin

text \<open>
  The running service, \<open>main\<close> of \<open>node-dedup/dedup.py\<close> with the settings the module reads from its
  environment: the thread of the poll loop, taken apart where it leaves or takes the lock or waits for
  an answer, next to the threads that serve the reporters and to a process that can be killed and
  started again at any point. The scheduler is a list of events. The directory, the database file and the port
  of the process are the parameter \<open>host\<close>. An interrupt of the loop by a signal is a restart.
\<close>

subsection \<open>The settings\<close>

type_synonym environ = "string \<Rightarrow> string option"

record settings =
  st_api_url :: string
  st_api_key :: string
  st_interval :: int
  st_db_path :: string
  st_dry_run :: bool
  st_auto_approve :: bool
  st_port :: int
  st_window :: int
  st_socket :: string
  st_src :: string
  st_center_url :: string
  st_probe_urls :: string

definition env_get :: "environ \<Rightarrow> string \<Rightarrow> string \<Rightarrow> string" where
  "env_get env k d = (case env k of None \<Rightarrow> d | Some v \<Rightarrow> v)"

definition env_int :: "environ \<Rightarrow> string \<Rightarrow> string \<Rightarrow> int res" where
  "env_int env k d = py_int (JStr (env_get env k d))"

definition truthy_texts :: "string list" where
  "truthy_texts = [''1'', ''true'', ''yes'']"

definition env_flag :: "environ \<Rightarrow> string \<Rightarrow> string \<Rightarrow> bool" where
  "env_flag env k d = (lower (env_get env k d) \<in> set truthy_texts)"

definition DERP_PROBE_DEFAULT :: string where
  "DERP_PROBE_DEFAULT =
     ''myderp=https://vpn2.hangocthanh.io.vn/derp/probe,''
     @ ''vpn3-vn=https://vpn3.hangocthanh.io.vn/derp/probe,''
     @ ''vpn4-vn=https://vpn4.hangocthanh.io.vn/derp/probe,''
     @ ''vpn5-us=https://vpn5.hangocthanh.io.vn:8443/derp/probe,''
     @ ''vpn6-vn=https://vpn6.hangocthanh.io.vn/relay/probe''"

definition read_settings :: "environ \<Rightarrow> settings res" where
  "read_settings env =
     rbind (env_int env ''POLL_INTERVAL'' ''30'') (\<lambda>interval.
     rbind (env_int env ''METRICS_PORT'' ''8090'') (\<lambda>port.
     rbind (env_int env ''LATENCY_WINDOW'' ''3600'') (\<lambda>window.
       Inr \<lparr>st_api_url = rstrip_char (CHR ''/'') (env_get env ''HS_API_URL'' ''http://headscale:8080''),
            st_api_key = env_get env ''HS_API_KEY'' [],
            st_interval = interval,
            st_db_path = env_get env ''DB_PATH'' ''/data/devices.db'',
            st_dry_run = env_flag env ''DRY_RUN'' ''true'',
            st_auto_approve = env_flag env ''AUTO_APPROVE_ROUTES'' ''true'',
            st_port = port,
            st_window = window,
            st_socket = env_get env ''TS_SOCKET'' ''/var/run/tailscale/tailscaled.sock'',
            st_src = env_get env ''SRC_NAME'' ''collector'',
            st_center_url = rstrip_char (CHR ''/'') (env_get env ''API_CENTER_URL'' []),
            st_probe_urls = env_get env ''DERP_PROBE_URLS'' DERP_PROBE_DEFAULT\<rparr>)))"

text \<open>What the poll loop and the handler of the collector use of the settings.\<close>

definition poll_settings :: "settings \<Rightarrow> poll_config" where
  "poll_settings st =
     \<lparr>pc_src = st_src st, pc_dry_run = st_dry_run st, pc_auto_approve = st_auto_approve st,
      pc_center_url = st_center_url st\<rparr>"

definition collector_settings :: "settings \<Rightarrow> config" where
  "collector_settings st = \<lparr>cf_window = st_window st, cf_probe_urls = st_probe_urls st\<rparr>"

subsection \<open>The state\<close>

text \<open>Where the thread of the poll loop stands.\<close>

datatype phase =
    Ready
  | Pinging "json list" "node list"
  | Forwarding "json list" "node list" "sample list"
  | Approving "(string \<times> string list) list" "node list"
  | Applying "action list"
  | Resting
  | Asleep int
  | Stopped pyexn

record service =
  sv_time :: int
  sv_db :: db
  sv_phase :: phase
  sv_sent :: "request list"
  sv_forwarded :: "(string \<times> json) list"

text \<open>\<open>os.path.dirname\<close> and the steps of \<open>main\<close> before the loop; \<open>os.makedirs("")\<close> raises.\<close>

definition dirname :: "string \<Rightarrow> string" where
  "dirname p =
     (let head = rev (dropWhile (\<lambda>c. c \<noteq> CHR ''/'') (rev p)) in
      if list_all (\<lambda>c. c = CHR ''/'') head then head else rstrip_char (CHR ''/'') head)"

record host =
  ho_makedirs :: "string \<Rightarrow> pyexn option"
  ho_open :: "string \<Rightarrow> db option res"
  ho_listen :: "int \<Rightarrow> pyexn option"

definition raising :: "pyexn option \<Rightarrow> unit res" where
  "raising e = (case e of None \<Rightarrow> Inr () | Some x \<Rightarrow> Inl x)"

definition makedirs :: "host \<Rightarrow> string \<Rightarrow> unit res" where
  "makedirs ho dir = (if dir = [] then Inl OtherError else raising (ho_makedirs ho dir))"

definition start_service :: "environ \<Rightarrow> host \<Rightarrow> int \<Rightarrow> (settings \<times> service) res" where
  "start_service env ho t =
     rbind (read_settings env) (\<lambda>st.
       if st_api_key st = [] then Inl (SystemExitCode 1)
       else
         rbind (makedirs ho (dirname (st_db_path st))) (\<lambda>_.
         rbind (ho_open ho (st_db_path st)) (\<lambda>file.
         rbind (raising (ho_listen ho (st_port st))) (\<lambda>_.
           Inr (st, \<lparr>sv_time = t, sv_db = init_tables file, sv_phase = Ready, sv_sent = [],
                     sv_forwarded = []\<rparr>)))))"

subsection \<open>The thread of the poll loop\<close>

text \<open>What the world answers to a step: the node list, the pings, a request to Headscale.\<close>

record reply =
  re_nodes :: "string res"
  re_ping :: "string \<Rightarrow> json"
  re_server :: server

text \<open>\<open>time.sleep(n)\<close>, whose nanoseconds have to fit in 64 bits, which is checked first.\<close>

definition fits_ns :: "int \<Rightarrow> bool" where
  "fits_ns n = (- (2 ^ 63) \<le> n * 10 ^ 9 \<and> n * 10 ^ 9 < 2 ^ 63)"

definition sleep_until :: "int \<Rightarrow> int \<Rightarrow> int res" where
  "sleep_until n t =
     (if \<not> fits_ns n then Inl OverflowError
      else if n < 0 then Inl (ValueError ''sleep length must be non-negative'')
      else Inr (t + n))"

definition read_nodes :: "reply \<Rightarrow> (json list \<times> node list) res" where
  "read_nodes re =
     rbind (raw_nodes (re_nodes re)) (\<lambda>raw. rbind (normalize raw) (\<lambda>nodes. Inr (raw, nodes)))"

text \<open>One action of the plan loop, with the requests sent before it.\<close>

definition apply_next ::
    "server \<Rightarrow> poll_config \<Rightarrow> action \<Rightarrow> request list \<Rightarrow> request list \<times> pyexn option" where
  "apply_next srv pc a sent =
     (case apply_action a of
        None \<Rightarrow> (sent, None)
      | Some rq \<Rightarrow> if pc_dry_run pc then (sent, None) else (sent @ [rq], srv sent rq))"

definition main_step :: "settings \<Rightarrow> reply \<Rightarrow> service \<Rightarrow> service" where
  "main_step st re s =
     (let pc = poll_settings st in
      case sv_phase s of
        Ready \<Rightarrow>
          (case read_nodes re of
             Inl e \<Rightarrow> s\<lparr>sv_phase := Resting\<rparr>
           | Inr (raw, nodes) \<Rightarrow>
               s\<lparr>sv_db := upsert_db (sv_time s) nodes (sv_db s), sv_phase := Pinging raw nodes\<rparr>)
      | Pinging raw nodes \<Rightarrow>
          (case server_ping_all (pc_src pc) nodes (re_ping re) of
             Inl e \<Rightarrow> s\<lparr>sv_phase := Resting\<rparr>
           | Inr ss \<Rightarrow>
               s\<lparr>sv_db := (if ss = [] then sv_db s
                          else fst (record_samples (pc_src pc) ss (sv_time s) (sv_db s))),
                 sv_phase := Forwarding raw nodes ss\<rparr>)
      | Forwarding raw nodes ss \<Rightarrow>
          (case forward_to_dashboard pc ss of
             Inl e \<Rightarrow> s\<lparr>sv_phase := Resting\<rparr>
           | Inr fwd \<Rightarrow>
               s\<lparr>sv_forwarded := sv_forwarded s @ (case fwd of None \<Rightarrow> [] | Some f \<Rightarrow> [f]),
                 sv_phase := (case route_plan pc raw of
                    Inl e \<Rightarrow> Resting | Inr approvals \<Rightarrow> Approving approvals nodes)\<rparr>)
      | Approving approvals nodes \<Rightarrow>
          (case approvals of
             [] \<Rightarrow> s\<lparr>sv_phase := Applying (plan_actions nodes)\<rparr>
           | a # rest \<Rightarrow>
               s\<lparr>sv_sent := (if pc_dry_run pc then sv_sent s else sv_sent s @ [approve_request a]),
                 sv_phase := Approving rest nodes\<rparr>)
      | Applying acts \<Rightarrow>
          (case acts of
             [] \<Rightarrow> s\<lparr>sv_phase := Resting\<rparr>
           | a # rest \<Rightarrow>
               (case apply_next (re_server re) pc a (sv_sent s) of
                  (sent', err) \<Rightarrow>
                    s\<lparr>sv_sent := sent',
                      sv_phase := (if err = None then Applying rest else Resting)\<rparr>))
      | Resting \<Rightarrow>
          s\<lparr>sv_phase := (case sleep_until (st_interval st) (sv_time s) of
               Inl e \<Rightarrow> Stopped e | Inr w \<Rightarrow> Asleep w)\<rparr>
      | Asleep w \<Rightarrow> if w \<le> sv_time s then s\<lparr>sv_phase := Ready\<rparr> else s
      | Stopped e \<Rightarrow> s)"

subsection \<open>The process\<close>

text \<open>
  An event is a step of the loop with what the world answers to it, a request to the collector, time
  that passes, or the process killed and started again on the same file. A process that has stopped
  serves nobody.
\<close>

datatype event = Main reply | Post http_request | Tick int | Restart

fun happen :: "settings \<Rightarrow> event \<Rightarrow> service \<Rightarrow> service" where
  "happen st (Main re) s = main_step st re s"
| "happen st (Post rq) s =
     (case sv_phase s of
        Stopped e \<Rightarrow> s
      | _ \<Rightarrow> s\<lparr>sv_db := snd (do_POST rq (sv_time s) (sv_db s))\<rparr>)"
| "happen st (Tick t) s = s\<lparr>sv_time := max (sv_time s) t\<rparr>"
| "happen st Restart s = s\<lparr>sv_db := init_tables (Some (sv_db s)), sv_phase := Ready\<rparr>"

definition run_service :: "settings \<Rightarrow> event list \<Rightarrow> service \<Rightarrow> service" where
  "run_service st es s = fold (happen st) es s"

lemma run_service_simps [simp]:
  "run_service st [] s = s"
  "run_service st (ev # es) s = run_service st es (happen st ev s)"
  "run_service st (es @ es') s = run_service st es' (run_service st es s)"
  by (simp_all add: run_service_def)

subsection \<open>Frame facts\<close>

lemma happen_time: "sv_time s \<le> sv_time (happen st ev s)"
  by (cases ev) (auto simp: main_step_def Let_def split: phase.split sum.split prod.split list.split)

lemma main_step_time [simp]: "sv_time (main_step st re s) = sv_time s"
  by (auto simp: main_step_def Let_def split: phase.split sum.split prod.split list.split)

lemma post_frame [simp]:
  "sv_phase (happen st (Post rq) s) = sv_phase s" "sv_sent (happen st (Post rq) s) = sv_sent s"
  "sv_time (happen st (Post rq) s) = sv_time s" "sv_forwarded (happen st (Post rq) s) = sv_forwarded s"
  by (simp_all split: phase.split)

lemma run_service_time: "sv_time s \<le> sv_time (run_service st es s)"
  by (induction es arbitrary: s) (auto intro: order_trans [OF happen_time])

lemma apply_next_dry: "pc_dry_run pc \<Longrightarrow> apply_next srv pc a sent = (sent, None)"
  by (simp add: apply_next_def split: option.split)

lemma start_service_facts:
  assumes "start_service env ho t = Inr (st, s)"
  shows "read_settings env = Inr st" "st_api_key st \<noteq> []" "sv_time s = t" "sv_phase s = Ready"
    "sv_sent s = []" "sv_forwarded s = []"
    "ho_open ho (st_db_path st) = Inr stored \<Longrightarrow> sv_db s = init_tables stored"
  using assms by (auto simp: start_service_def res_simps split: if_splits)

subsection \<open>The database under any schedule\<close>

lemma main_step_writes:
  "sv_db (main_step st re s) = sv_db s
   \<or> db_step (sv_time s, sv_db s) (sv_time s, sv_db (main_step st re s))"
  by (auto simp: main_step_def Let_def split: phase.split sum.split prod.split list.split
      intro: db_step.poll db_step.pings)

lemma happen_writes: "db_step\<^sup>*\<^sup>* (sv_time s, sv_db s) (sv_time (happen st ev s), sv_db (happen st ev s))"
proof (cases ev)
  case (Main re)
  then show ?thesis using main_step_writes [of st re s] by auto
next
  case (Post rq)
  obtain r d where p: "do_POST rq (sv_time s) (sv_db s) = (r, d)" by (cases "do_POST rq (sv_time s) (sv_db s)")
  from post_history [OF this] Post show ?thesis by (auto simp: p split: phase.split)
next
  case (Tick t)
  then show ?thesis by (auto intro!: r_into_rtranclp db_step.tick)
next
  case Restart
  then show ?thesis by (simp add: init_tables_def)
qed

lemma run_writes:
  "db_step\<^sup>*\<^sup>* (sv_time s, sv_db s) (sv_time (run_service st es s), sv_db (run_service st es s))"
  by (induction es arbitrary: s) (auto intro: rtranclp_trans [OF happen_writes])

text \<open>C11: However the poll loop, the requests of the reporters, the clock and kills of the process are
  interleaved, the database of the service is one the history of single writes can reach, so that the
  invariant of those databases holds at every moment.\<close>

theorem service_refines_history:
  assumes "start_service env ho t = Inr (st, s)" and "ho_open ho (st_db_path st) = Inr None"
  shows "db_reachable (sv_time (run_service st es s), sv_db (run_service st es s))"
proof -
  have "db_reachable (sv_time s, sv_db s)"
    using start_service_facts(7) [OF assms] by (simp add: db_reachable.start)
  then show ?thesis by (rule db_reachable_steps [OF run_writes])
qed

subsection \<open>What is sent\<close>

lemma dry_sends_nothing: "st_dry_run st \<Longrightarrow> sv_sent (happen st ev s) = sv_sent s"
  by (cases ev) (auto simp: main_step_def poll_settings_def apply_next_dry Let_def
      split: phase.split sum.split prod.split list.split)

text \<open>C5: Unless the environment says otherwise the service only looks: with DRY_RUN unset, or one of 1,
  true and yes in any case, it never sends Headscale a request that changes it, under any schedule.\<close>

theorem dry_service_sends_nothing:
  assumes "start_service env ho t = Inr (st, s)"
    and "lower (env_get env ''DRY_RUN'' ''true'') \<in> {''1'', ''true'', ''yes''}"
  shows "sv_sent (run_service st es s) = []"
proof -
  have "st_dry_run st"
    using start_service_facts(1) [OF assms(1)] assms(2)
    by (auto simp: read_settings_def env_flag_def truthy_texts_def res_simps)
  then have "sv_sent (run_service st es s) = sv_sent s"
    by (induction es arbitrary: s) (simp_all add: dry_sends_nothing)
  then show ?thesis using start_service_facts(5) [OF assms(1)] by simp
qed

definition is_post :: "event \<Rightarrow> bool" where
  "is_post ev = (case ev of Post rq \<Rightarrow> True | _ \<Rightarrow> False)"

definition loop_view :: "service \<Rightarrow> int \<times> phase \<times> request list \<times> (string \<times> json) list" where
  "loop_view s = (sv_time s, sv_phase s, sv_sent s, sv_forwarded s)"

lemma happen_other_db:
  "\<exists>d'. happen st ev (s\<lparr>sv_db := d\<rparr>) = (happen st ev s)\<lparr>sv_db := d'\<rparr>"
  by (cases ev; cases s)
     (auto simp: main_step_def Let_def split: phase.split sum.split prod.split list.split intro: exI)

lemma run_without_posts:
  "\<exists>d'. run_service st (filter (\<lambda>ev. \<not> is_post ev) es) (s\<lparr>sv_db := d\<rparr>) = (run_service st es s)\<lparr>sv_db := d'\<rparr>"
proof (induction es arbitrary: s d)
  case Nil
  show ?case by (intro exI [of _ d]) simp
next
  case (Cons ev es)
  show ?case
  proof (cases "is_post ev")
    case True
    then obtain rq where ev: "ev = Post rq" by (auto simp: is_post_def split: event.splits)
    have "(happen st ev s)\<lparr>sv_db := d\<rparr> = s\<lparr>sv_db := d\<rparr>" by (simp add: ev split: phase.split)
    with Cons.IH [of d "happen st ev s"] True show ?thesis by simp
  next
    case False
    obtain d' where "happen st ev (s\<lparr>sv_db := d\<rparr>) = (happen st ev s)\<lparr>sv_db := d'\<rparr>"
      using happen_other_db by blast
    with Cons.IH [of d' "happen st ev s"] False show ?thesis by simp
  qed
qed

text \<open>C12: Nothing the reporters post, and nothing in the database, ever changes what the service sends:
  leaving all their requests out of a schedule, and starting from any other database, the loop
  stands at the same point with the same requests sent and the same samples forwarded.\<close>

theorem posts_never_steer:
  "loop_view (run_service st (filter (\<lambda>ev. \<not> is_post ev) es) (s\<lparr>sv_db := d\<rparr>)) = loop_view (run_service st es s)"
proof -
  obtain d' where "run_service st (filter (\<lambda>ev. \<not> is_post ev) es) (s\<lparr>sv_db := d\<rparr>)
      = (run_service st es s)\<lparr>sv_db := d'\<rparr>" using run_without_posts by blast
  then show ?thesis by (simp add: loop_view_def)
qed

subsection \<open>An undisturbed round is the round of the poll loop\<close>

definition reaches :: "settings \<Rightarrow> reply \<Rightarrow> service \<Rightarrow> service \<Rightarrow> bool" where
  "reaches st re s s' = (\<exists>n. s' = run_service st (replicate n (Main re)) s)"

lemma reaches_refl: "reaches st re s s"
  unfolding reaches_def by (intro exI [of _ 0]) simp

lemma reaches_step: "reaches st re (main_step st re s) s' \<Longrightarrow> reaches st re s s'"
  unfolding reaches_def by (elim exE, rule_tac x = "Suc n" in exI) simp

lemma approving_reaches:
  assumes "reaches st re
    (s\<lparr>sv_sent := approve_all (poll_settings st) approvals (sv_sent s), sv_phase := Applying (plan_actions nodes)\<rparr>) s'"
  shows "reaches st re (s\<lparr>sv_phase := Approving approvals nodes\<rparr>) s'"
  using assms
proof (induction approvals arbitrary: s)
  case Nil
  then show ?case by - (rule reaches_step, simp add: main_step_def Let_def)
next
  case (Cons a approvals)
  let ?sent = "if pc_dry_run (poll_settings st) then sv_sent s else sv_sent s @ [approve_request a]"
  have "reaches st re (s\<lparr>sv_sent := ?sent, sv_phase := Approving approvals nodes\<rparr>) s'"
    using Cons.IH [of "s\<lparr>sv_sent := ?sent\<rparr>"] Cons.prems by simp
  then show ?case by - (rule reaches_step, simp add: main_step_def Let_def split: if_splits)
qed

lemma apply_all_next:
  "apply_all srv pc (a # acts) sent =
     (case apply_next srv pc a sent of
        (sent', None) \<Rightarrow> apply_all srv pc acts sent' | (sent', Some e) \<Rightarrow> (sent', Some e))"
  by (auto simp: apply_next_def apply_action_def split: action.split option.split)

lemma apply_next_prefix:
  "apply_next srv pc a (pre @ sent) = map_prod ((@) pre) id (apply_next (\<lambda>h. srv (pre @ h)) pc a sent)"
  by (simp add: apply_next_def split: option.split)

lemma applying_reaches:
  assumes "apply_all (\<lambda>h. re_server re (pre @ h)) (poll_settings st) acts sent = (reqs, err)"
  shows "reaches st re (s\<lparr>sv_sent := pre @ sent, sv_phase := Applying acts\<rparr>)
    (s\<lparr>sv_sent := pre @ reqs, sv_phase := Resting\<rparr>)"
  using assms
proof (induction acts arbitrary: s "sent")
  case Nil
  then show ?case
    by - (rule reaches_step, auto simp: main_step_def Let_def intro: reaches_refl)
next
  case (Cons a acts)
  obtain sent' e where n: "apply_next (\<lambda>h. re_server re (pre @ h)) (poll_settings st) a sent = (sent', e)"
    by (cases "apply_next (\<lambda>h. re_server re (pre @ h)) (poll_settings st) a sent")
  have m: "main_step st re (s\<lparr>sv_sent := pre @ sent, sv_phase := Applying (a # acts)\<rparr>)
      = s\<lparr>sv_sent := pre @ sent', sv_phase := (if e = None then Applying acts else Resting)\<rparr>"
    by (simp add: main_step_def Let_def apply_next_prefix n)
  show ?case
  proof (cases e)
    case None
    with Cons.prems n have "apply_all (\<lambda>h. re_server re (pre @ h)) (poll_settings st) acts sent' = (reqs, err)"
      by (simp only: apply_all_next) simp
    from Cons.IH [OF this] None show ?thesis by - (rule reaches_step, simp add: m)
  next
    case (Some x)
    with Cons.prems n have "reqs = sent'" by (simp only: apply_all_next) simp
    with Some show ?thesis by - (rule reaches_step, simp add: m reaches_refl)
  qed
qed

abbreviation standing :: "int \<Rightarrow> db \<Rightarrow> phase \<Rightarrow> request list \<Rightarrow> (string \<times> json) list \<Rightarrow> service" where
  "standing t d ph q f \<equiv> \<lparr>sv_time = t, sv_db = d, sv_phase = ph, sv_sent = q, sv_forwarded = f\<rparr>"

lemma acting_reaches:
  assumes "apply_all (\<lambda>h. re_server re (q @ h)) (poll_settings st) (plan_actions nodes)
      (approve_all (poll_settings st) approvals []) = (reqs, err)"
  shows "reaches st re (standing t d (Approving approvals nodes) q f) (standing t d Resting (q @ reqs) f)"
  using approving_reaches [where s = "standing t d Ready q f"]
    applying_reaches [OF assms, where s = "standing t d Ready q f"]
  by (simp add: approve_all_simp)

lemma reaches_ready:
  assumes "\<And>e. read_nodes re = Inl e \<Longrightarrow> reaches st re (standing t d Resting q f) s'"
    and "\<And>raw nodes. read_nodes re = Inr (raw, nodes) \<Longrightarrow>
      reaches st re (standing t (upsert_db t nodes d) (Pinging raw nodes) q f) s'"
  shows "reaches st re (standing t d Ready q f) s'"
  by (rule reaches_step) (auto simp: main_step_def Let_def assms split: sum.split)

lemma reaches_pinging:
  assumes "\<And>e. server_ping_all (st_src st) nodes (re_ping re) = Inl e \<Longrightarrow>
      reaches st re (standing t d Resting q f) s'"
    and "\<And>ss. server_ping_all (st_src st) nodes (re_ping re) = Inr ss \<Longrightarrow>
      reaches st re (standing t (if ss = [] then d else fst (record_samples (st_src st) ss t d))
        (Forwarding raw nodes ss) q f) s'"
  shows "reaches st re (standing t d (Pinging raw nodes) q f) s'"
proof (rule reaches_step, cases "server_ping_all (st_src st) nodes (re_ping re)")
  case (Inr ss)
  from assms(2) [OF this] Inr
  show "reaches st re (main_step st re (standing t d (Pinging raw nodes) q f)) s'"
    by (simp add: main_step_def poll_settings_def Let_def split: if_splits)
qed (simp add: main_step_def poll_settings_def Let_def assms(1))

lemma reaches_forwarding:
  assumes "\<And>e. forward_to_dashboard (poll_settings st) ss = Inl e \<Longrightarrow>
      reaches st re (standing t d Resting q f) s'"
    and "\<And>fwd e. forward_to_dashboard (poll_settings st) ss = Inr fwd \<Longrightarrow>
      route_plan (poll_settings st) raw = Inl e \<Longrightarrow>
      reaches st re (standing t d Resting q (f @ (case fwd of None \<Rightarrow> [] | Some x \<Rightarrow> [x]))) s'"
    and "\<And>fwd a. forward_to_dashboard (poll_settings st) ss = Inr fwd \<Longrightarrow>
      route_plan (poll_settings st) raw = Inr a \<Longrightarrow>
      reaches st re (standing t d (Approving a nodes) q (f @ (case fwd of None \<Rightarrow> [] | Some x \<Rightarrow> [x]))) s'"
  shows "reaches st re (standing t d (Forwarding raw nodes ss) q f) s'"
  by (rule reaches_step) (auto simp: main_step_def Let_def assms split: sum.split)

lemma round_reaches:
  assumes "rd = poll_round (poll_settings st) (\<lambda>h. re_server re (q @ h)) (re_ping re) t t (re_nodes re) d"
  shows "reaches st re (standing t d Ready q f)
    (standing t (rd_db rd) Resting (q @ rd_requests rd)
      (f @ (case rd_forward rd of None \<Rightarrow> [] | Some x \<Rightarrow> [x])))"
proof -
  have src: "pc_src (poll_settings st) = st_src st" by (simp add: poll_settings_def)
  note rd = assms [unfolded poll_round_def read_nodes_def [symmetric] Let_def src]
  show ?thesis
    apply (rule reaches_ready)
     apply (simp add: rd failed_round_def reaches_refl)
    apply (rule reaches_pinging)
     apply (simp add: rd failed_round_def reaches_refl)
    apply (rule reaches_forwarding)
      apply (simp add: rd failed_round_def reaches_refl)
     apply (simp add: rd failed_round_def reaches_refl)
    apply (auto simp: rd intro: acting_reaches split: prod.split)
    done
qed

text \<open>Left alone, the loop's thread makes of a round exactly what the function of the round says: the
  same database, the same requests in the same order, the same samples forwarded; and it always
  comes to the end of the round, whatever the server answers.\<close>

theorem undisturbed_round:
  assumes "sv_phase s = Ready"
    and "rd = poll_round (poll_settings st) (\<lambda>h. re_server re (sv_sent s @ h)) (re_ping re)
      (sv_time s) (sv_time s) (re_nodes re) (sv_db s)"
  shows "\<exists>n. run_service st (replicate n (Main re)) s =
    \<lparr>sv_time = sv_time s, sv_db = rd_db rd, sv_phase = Resting, sv_sent = sv_sent s @ rd_requests rd,
     sv_forwarded = sv_forwarded s @ (case rd_forward rd of None \<Rightarrow> [] | Some f \<Rightarrow> [f])\<rparr>"
proof -
  have "s = standing (sv_time s) (sv_db s) Ready (sv_sent s) (sv_forwarded s)" using assms(1) by simp
  with round_reaches [OF assms(2), of "sv_forwarded s"] show ?thesis by (simp add: reaches_def eq_commute)
qed

subsection \<open>When the loop ends, and that it goes on\<close>

definition sane_interval :: "int \<Rightarrow> bool" where
  "sane_interval n = (0 \<le> n \<and> fits_ns n)"

lemma sleep_until_simp:
  "sleep_until n t = (if sane_interval n then Inr (t + n)
     else Inl (if fits_ns n then ValueError ''sleep length must be non-negative'' else OverflowError))"
  by (simp add: sleep_until_def sane_interval_def)

lemma happen_stops:
  assumes "sv_phase (happen st ev s) = Stopped e"
  shows "sv_phase s = Stopped e \<or> sleep_until (st_interval st) (sv_time s) = Inl e"
proof (cases ev)
  case (Main re)
  with assms show ?thesis
    by (auto simp: main_step_def Let_def split: phase.splits sum.splits prod.splits list.splits if_splits)
qed (use assms in \<open>auto split: phase.splits\<close>)

lemma run_stops:
  assumes "sv_phase (run_service st es s) = Stopped e" and "\<And>x. sv_phase s \<noteq> Stopped x"
  shows "\<exists>t. sleep_until (st_interval st) t = Inl e"
  using assms(1)
proof (induction es arbitrary: e rule: rev_induct)
  case Nil
  then show ?case using assms(2) by simp
next
  case (snoc ev es)
  from snoc.prems have "sv_phase (happen st ev (run_service st es s)) = Stopped e" by simp
  from happen_stops [OF this] snoc.IH show ?case by blast
qed

text \<open>C13: Only the pause between two rounds can end the service: no answer, no report and no failure of a
  round does, and the pause does so exactly for an interval that is negative or too long to sleep.\<close>

theorem service_stops_only_in_sleep:
  assumes "start_service env ho t = Inr (st, s)" and "sv_phase (run_service st es s) = Stopped e"
  shows "st_interval st < 0 \<and> fits_ns (st_interval st) \<and> e = ValueError ''sleep length must be non-negative''
    \<or> \<not> fits_ns (st_interval st) \<and> e = OverflowError"
proof -
  have "\<And>x. sv_phase s \<noteq> Stopped x" using start_service_facts(4) [OF assms(1)] by simp
  from run_stops [OF assms(2) this] obtain u where "sleep_until (st_interval st) u = Inl e" by blast
  then show ?thesis by (auto simp: sleep_until_def split: if_splits)
qed

text \<open>The order in which a round goes through its phases, the next round being its end.\<close>

definition rounds_order :: "((nat \<times> nat) \<times> (nat \<times> nat)) set" where
  "rounds_order = less_than <*lex*> less_than"

lemma wf_rounds_order: "wf rounds_order"
  by (simp add: rounds_order_def wf_lex_prod)

definition phase_rank :: "phase \<Rightarrow> nat \<times> nat" where
  "phase_rank ph =
     (case ph of Ready \<Rightarrow> (0, 0) | Stopped e \<Rightarrow> (0, 0) | Asleep w \<Rightarrow> (1, 0) | Resting \<Rightarrow> (2, 0)
      | Applying acts \<Rightarrow> (3, length acts) | Approving approvals nodes \<Rightarrow> (4, length approvals)
      | Forwarding raw nodes ss \<Rightarrow> (5, 0) | Pinging raw nodes \<Rightarrow> (6, 0))"

lemma main_step_down:
  assumes "sane_interval (st_interval st)" and "sv_phase s \<noteq> Ready" and "\<And>e. sv_phase s \<noteq> Stopped e"
    and "\<And>w. sv_phase s = Asleep w \<Longrightarrow> w \<le> sv_time s"
  shows "(phase_rank (sv_phase (main_step st re s)), phase_rank (sv_phase s)) \<in> rounds_order"
  using assms
  by (cases "sv_phase s")
     (auto simp: main_step_def Let_def sleep_until_simp phase_rank_def rounds_order_def
       split: sum.split prod.split list.split)

definition state_at :: "settings \<Rightarrow> (nat \<Rightarrow> event) \<Rightarrow> service \<Rightarrow> nat \<Rightarrow> service" where
  "state_at st evs s n = run_service st (map evs [0..<n]) s"

lemma state_at_simps [simp]:
  "state_at st evs s 0 = s"
  "state_at st evs s (Suc n) = happen st (evs n) (state_at st evs s n)"
  by (simp_all add: state_at_def)

lemma state_at_time: "n \<le> m \<Longrightarrow> sv_time (state_at st evs s n) \<le> sv_time (state_at st evs s m)"
  by (induction m rule: dec_induct) (auto intro: order_trans [OF _ happen_time])

definition is_main :: "event \<Rightarrow> bool" where
  "is_main ev = (case ev of Main re \<Rightarrow> True | _ \<Rightarrow> False)"

lemma happen_down:
  assumes "sane_interval (st_interval st)" and "sv_phase s \<noteq> Ready" and "\<And>e. sv_phase s \<noteq> Stopped e"
  shows "sv_phase (happen st ev s) = sv_phase s
    \<or> (phase_rank (sv_phase (happen st ev s)), phase_rank (sv_phase s)) \<in> rounds_order"
proof (cases ev)
  case (Main re)
  show ?thesis
  proof (cases "\<exists>w. sv_phase s = Asleep w \<and> sv_time s < w")
    case True
    with Main show ?thesis by (auto simp: main_step_def Let_def)
  next
    case False
    then have "w \<le> sv_time s" if "sv_phase s = Asleep w" for w using that by force
    from main_step_down [OF assms this] Main show ?thesis by simp
  qed
next
  case Restart
  with assms show ?thesis by (auto simp: phase_rank_def rounds_order_def split: phase.split)
qed (auto split: phase.split)

lemma state_at_not_stopped:
  assumes "sane_interval (st_interval st)" and "\<And>e. sv_phase s \<noteq> Stopped e"
  shows "sv_phase (state_at st evs s n) \<noteq> Stopped e"
  using run_stops [of st "map evs [0..<n]" s e] assms by (auto simp: state_at_def sleep_until_simp)

text \<open>Every phase but the first leads to a lower one.\<close>

lemma phase_leads_down:
  assumes sane: "sane_interval (st_interval st)" and run: "\<And>e. sv_phase s \<noteq> Stopped e"
    and main: "\<And>n. \<exists>m\<ge>n. is_main (evs m)" and clock: "\<And>t. \<exists>n. t \<le> sv_time (state_at st evs s n)"
    and "sv_phase (state_at st evs s n) \<noteq> Ready"
  shows "\<exists>m\<ge>n. (phase_rank (sv_phase (state_at st evs s m)), phase_rank (sv_phase (state_at st evs s n))) \<in> rounds_order"
proof (rule ccontr)
  let ?at = "state_at st evs s"
  assume no: "\<not> ?thesis"
  have same: "n \<le> m \<Longrightarrow> sv_phase (?at m) = sv_phase (?at n)" for m
  proof (induction m rule: dec_induct)
    case (step m)
    have "sv_phase (?at m) \<noteq> Ready" using step.IH assms(5) by simp
    from happen_down [OF sane this state_at_not_stopped [OF sane run], of "evs m"] step no
    show ?case by (metis state_at_simps(2) le_SucI)
  qed simp
  obtain k where k: "(case sv_phase (?at n) of Asleep w \<Rightarrow> w | _ \<Rightarrow> 0) \<le> sv_time (?at k)" using clock by blast
  obtain m where "max n k \<le> m" "is_main (evs m)" using main by blast
  moreover from this(2) obtain re where "evs m = Main re" by (cases "evs m") (auto simp: is_main_def)
  ultimately have m: "max n k \<le> m" "evs m = Main re" by simp_all
  have w: "w \<le> sv_time (?at m)" if "sv_phase (?at m) = Asleep w" for w
  proof -
    have "sv_phase (?at n) = Asleep w" using same [of m] that m(1) by simp
    with k have "w \<le> sv_time (?at k)" by simp
    also have "\<dots> \<le> sv_time (?at m)" using m(1) by (intro state_at_time) simp
    finally show ?thesis .
  qed
  have "sv_phase (?at m) \<noteq> Ready" using same [of m] m(1) assms(5) by simp
  from main_step_down [OF sane this state_at_not_stopped [OF sane run] w, of re]
  have "(phase_rank (sv_phase (?at (Suc m))), phase_rank (sv_phase (?at n))) \<in> rounds_order"
    using m same [of m] by simp
  moreover have "n \<le> Suc m" using m(1) by simp
  ultimately show False using no by blast
qed

text \<open>C6: The loop does not die: when its pause can be slept, its thread goes on being scheduled (every
  call it makes has a timeout) and time goes on, it begins a new round again and again, whatever
  Headscale, the pings and the reporters do and however often the process is killed.\<close>

theorem loop_never_dies:
  assumes "start_service env ho t = Inr (st, s)" and "sane_interval (st_interval st)"
    and "\<And>n. \<exists>m\<ge>n. is_main (evs m)" and "\<And>u. \<exists>n. u \<le> sv_time (state_at st evs s n)"
  shows "\<exists>n\<ge>k. sv_phase (state_at st evs s n) = Ready"
proof -
  have run: "sv_phase s \<noteq> Stopped e" for e using start_service_facts(4) [OF assms(1)] by simp
  have "\<exists>m\<ge>n. sv_phase (state_at st evs s m) = Ready" if "r = phase_rank (sv_phase (state_at st evs s n))" for n r
    using wf_rounds_order that
  proof (induction r arbitrary: n)
    case (less r)
    show ?case
    proof (cases "sv_phase (state_at st evs s n) = Ready")
      case False
      from phase_leads_down [OF assms(2) run assms(3,4) False] less.prems
      obtain m where "n \<le> m" "(phase_rank (sv_phase (state_at st evs s m)), r) \<in> rounds_order" by blast
      with less.IH [OF this(2) refl] show ?thesis by (meson order_trans)
    qed blast
  qed
  then show ?thesis by blast
qed

subsection \<open>The properties at a concrete service\<close>

definition sample_env :: "string \<Rightarrow> string \<Rightarrow> environ" where
  "sample_env interval dry =
     [''HS_API_KEY'' \<mapsto> ''k'', ''POLL_INTERVAL'' \<mapsto> interval, ''DRY_RUN'' \<mapsto> dry]"

definition new_host :: host where
  "new_host = \<lparr>ho_makedirs = (\<lambda>p. None), ho_open = (\<lambda>p. Inr None), ho_listen = (\<lambda>p. None)\<rparr>"

definition sample_settings :: "int \<Rightarrow> bool \<Rightarrow> settings" where
  "sample_settings interval dry =
     \<lparr>st_api_url = ''http://headscale:8080'', st_api_key = ''k'', st_interval = interval,
      st_db_path = ''/data/devices.db'', st_dry_run = dry, st_auto_approve = True, st_port = 8090,
      st_window = 3600, st_socket = ''/var/run/tailscale/tailscaled.sock'', st_src = ''collector'',
      st_center_url = [], st_probe_urls = DERP_PROBE_DEFAULT\<rparr>"

definition started :: service where
  "started = \<lparr>sv_time = 7, sv_db = empty_db, sv_phase = Ready, sv_sent = [], sv_forwarded = []\<rparr>"

definition down :: reply where
  "down = \<lparr>re_nodes = Inl URLError, re_ping = (\<lambda>ip. JNull), re_server = (\<lambda>h rq. None)\<rparr>"

definition busy :: reply where
  "busy = down\<lparr>re_nodes := nodes_answer\<rparr>"

lemma sample_starts:
  "start_service (sample_env ''30'' ''Yes'') new_host 7 = Inr (sample_settings 30 True, started)"
  "start_service (sample_env ''30'' ''no'') new_host 7 = Inr (sample_settings 30 False, started)"
  "start_service (sample_env ''-1'' ''no'') new_host 7 = Inr (sample_settings (- 1) False, started)"
  by code_simp+

theorem service_refines_history_witness:
  "db_reachable (sv_time (run_service (sample_settings 30 True) [Main busy, Post sample_post, Tick 9, Restart] started),
     sv_db (run_service (sample_settings 30 True) [Main busy, Post sample_post, Tick 9, Restart] started))"
  by (rule service_refines_history [OF sample_starts(1)]) (simp add: new_host_def)

theorem dry_service_sends_nothing_witness:
  "sv_sent (run_service (sample_settings 30 True) (replicate 9 (Main busy)) started) = []"
  by (rule dry_service_sends_nothing [OF sample_starts(1)]) code_simp

theorem undisturbed_round_witness:
  "\<exists>n. sv_phase (run_service (sample_settings 30 False) (replicate n (Main busy)) started) = Resting"
proof -
  have "sv_phase started = Ready" by (simp add: started_def)
  from undisturbed_round [OF this refl, of "sample_settings 30 False" busy] show ?thesis
    by (metis service.select_convs(3))
qed

theorem service_stops_only_in_sleep_witness:
  "\<exists>e. sv_phase (run_service (sample_settings (- 1) False) [Main down, Main down] started) = Stopped e
     \<and> e = ValueError ''sleep length must be non-negative''"
proof -
  have st: "st_interval (sample_settings (- 1) False) = - 1" by (simp add: sample_settings_def)
  have "read_nodes down = Inl URLError" by (simp add: read_nodes_def down_def raw_nodes_def api_json_def)
  then obtain e where
    e: "sv_phase (run_service (sample_settings (- 1) False) [Main down, Main down] started) = Stopped e"
    by (simp add: main_step_def started_def Let_def sleep_until_def fits_ns_def st)
  from service_stops_only_in_sleep [OF sample_starts(3) this] e st show ?thesis by (auto simp: fits_ns_def)
qed

definition busy_day :: "nat \<Rightarrow> event" where
  "busy_day n = (if even n then Main busy else if n mod 3 = 0 then Post sample_post else Tick (int n))"

theorem loop_never_dies_witness:
  "\<exists>n\<ge>1000. sv_phase (state_at (sample_settings 30 False) busy_day started n) = Ready"
proof (rule loop_never_dies [OF sample_starts(2)])
  show "sane_interval (st_interval (sample_settings 30 False))" by code_simp
next
  fix n :: nat
  show "\<exists>m\<ge>n. is_main (busy_day m)"
    by (intro exI [of _ "2 * n"]) (simp add: busy_day_def is_main_def)
next
  fix u :: int
  let ?m = "6 * nat \<bar>u\<bar> + 1"
  have "odd ?m" by simp
  moreover have "(6 * k + 1) mod 3 \<noteq> 0" for k :: nat by presburger
  ultimately have "sv_time (state_at (sample_settings 30 False) busy_day started (Suc ?m))
      = max (sv_time (state_at (sample_settings 30 False) busy_day started ?m)) (int ?m)"
    by (simp only: state_at_simps busy_day_def if_False happen.simps) simp
  then show "\<exists>n. u \<le> sv_time (state_at (sample_settings 30 False) busy_day started n)"
    by (intro exI [of _ "Suc ?m"]) linarith
qed

end
