(* ===== verification/Reporter.thy ===== *)
theory Reporter
  imports Collector LocalApi
begin

text \<open>
  The ping reporter of the DERP servers, \<open>ping-reporter/reporter.py\<close>: \<open>get_peers_and_collector\<close>,
  \<open>ping_peer\<close>, \<open>post_to_collector\<close> and one round of \<open>main\<close>, and how it meets the collector of
  \<open>node-dedup/dedup.py\<close>: the two readings of a ping result agree, and what the reporter posts is
  stored as it was measured. The LocalAPI and the HTTP connection to the collector are parameters.
\<close>

subsection \<open>Peers and the collector\<close>

definition collector_hostname :: string where
  "collector_hostname = ''collector''"

record scan =
  sc_peers :: "(string \<times> string) list"
  sc_offline :: "string option"
  sc_online :: "string option"

record status_peer =
  sp_host :: string
  sp_ip4 :: string
  sp_online :: bool

definition status_peer_of :: "json \<Rightarrow> status_peer res" where
  "status_peer_of peer =
     rbind (jget peer ''TailscaleIPs'' JNull) (\<lambda>v.
     rbind (as_strs (py_or v (JArr []))) (\<lambda>addrs.
     let ip4 = first_ipv4 addrs in
     if ip4 = [] then Inr \<lparr>sp_host = [], sp_ip4 = [], sp_online = False\<rparr>
     else
       rbind (rbind (jget peer ''HostName'' JNull) str_or_empty) (\<lambda>name.
       rbind (if name \<noteq> [] then Inr name
              else rbind (rbind (jget peer ''DNSName'' JNull) str_or_empty) (\<lambda>dns.
                Inr (hd (split_char (CHR ''.'') dns)))) (\<lambda>host.
       rbind (jget peer ''Online'' JNull) (\<lambda>on.
       Inr \<lparr>sp_host = lower host, sp_ip4 = ip4, sp_online = truthy on\<rparr>)))))"

text \<open>One turn of the loop: peers without an IPv4 address are passed over.\<close>

definition scan_step :: "status_peer \<Rightarrow> scan \<Rightarrow> scan" where
  "scan_step p s =
     (if sp_ip4 p = [] then s
      else if sp_host p = collector_hostname then
        (if sp_online p then s\<lparr>sc_online := Some (sp_ip4 p)\<rparr>
         else if sc_offline s = None then s\<lparr>sc_offline := Some (sp_ip4 p)\<rparr>
         else s)
      else if sp_online p then s\<lparr>sc_peers := sc_peers s @ [(sp_host p, sp_ip4 p)]\<rparr>
      else s)"

definition empty_scan :: scan where
  "empty_scan = \<lparr>sc_peers = [], sc_offline = None, sc_online = None\<rparr>"

definition chosen_collector :: "scan \<Rightarrow> string option" where
  "chosen_collector s = (case sc_online s of Some ip \<Rightarrow> Some ip | None \<Rightarrow> sc_offline s)"

definition peers_and_collector :: "status_peer list \<Rightarrow> (string \<times> string) list \<times> string option" where
  "peers_and_collector ps = (let s = fold scan_step ps empty_scan in (sc_peers s, chosen_collector s))"

definition get_peers_and_collector :: "exchange \<Rightarrow> ((string \<times> string) list \<times> string option) res" where
  "get_peers_and_collector ex =
     rbind (localapi_status ex) (\<lambda>status.
       if \<not> truthy status then Inr ([], None)
       else case status of
         JObj d \<Rightarrow>
           rbind (status_peers d) (\<lambda>raw. rbind (rmap status_peer_of raw) (\<lambda>ps.
             Inr (peers_and_collector ps)))
       | _ \<Rightarrow> Inl AttributeError)"

subsection \<open>Pings and posts\<close>

definition ping_peer :: "exchange \<Rightarrow> string \<Rightarrow> ping res" where
  "ping_peer ex ip4 =
     rbind (localapi_answer (ex ''POST'' (ping_url ip4 ''disco''))) (\<lambda>result.
     case result of
        JObj d \<Rightarrow>
          (if truthy (dget d ''Err'' JNull) \<or> \<not> truthy (dget d ''LatencySeconds'' JNull)
           then Inr \<lparr>p_ok = False, p_rtt = None, p_path = []\<rparr>
           else
             rbind (py_float (py_or (dget d ''LatencySeconds'' (JInt 0)) (JInt 0))) (\<lambda>lat.
             let path =
               (if truthy (dget d ''Endpoint'' JNull) then ''direct''
                else let derp = py_or (dget d ''DERPRegionCode'' JNull) (dget d ''DERPRegionID'' JNull)
                     in if truthy derp then ''derp:'' @ py_str derp else ''direct'')
             in Inr \<lparr>p_ok = True, p_rtt = Some (round1 (fmul_pos lat 1000)), p_path = path\<rparr>))
      | _ \<Rightarrow> Inr \<lparr>p_ok = False, p_rtt = None, p_path = []\<rparr>)"

text \<open>The bytes of a report, and the connection to the collector: the status it answers to them, or nothing
  when it raises.\<close>

definition report_bytes :: "string \<Rightarrow> sample list \<Rightarrow> string" where
  "report_bytes name ss = utf8_encode (dumps (report_payload name ss))"

type_synonym poster = "string \<Rightarrow> string \<Rightarrow> int option"

definition post_to_collector :: "string \<Rightarrow> poster \<Rightarrow> string \<Rightarrow> sample list \<Rightarrow> bool" where
  "post_to_collector name post ip ss = (post ip (report_bytes name ss) = Some 200)"

text \<open>The request that arrives at the collector from the address \<open>client\<close>.\<close>

definition report_request :: "string \<Rightarrow> string \<Rightarrow> http_request" where
  "report_request client payload =
     \<lparr>rq_client = client, rq_path = ''/metrics/report'', rq_length = Some (int_str (int (length payload))),
      rq_body = payload\<rparr>"

datatype round = NoCollector | NoPeers | Posted (rd_collector: string) (rd_samples: "sample list") (rd_ok: bool)

definition reporter_round :: "string \<Rightarrow> exchange \<Rightarrow> poster \<Rightarrow> round res" where
  "reporter_round name ex post =
     rbind (get_peers_and_collector ex) (\<lambda>(peers, coll).
       case coll of
         None \<Rightarrow> Inr NoCollector
       | Some ip \<Rightarrow>
           if peers = [] then Inr NoPeers
           else
             rbind (rmap (\<lambda>(host, ip4). rbind (ping_peer ex ip4) (\<lambda>r. Inr (sample_of host ip4 r))) peers)
               (\<lambda>ss. Inr (Posted ip ss (post_to_collector name post ip ss))))"

subsection \<open>Which collector\<close>

definition is_collector :: "status_peer \<Rightarrow> bool" where
  "is_collector p = (sp_ip4 p \<noteq> [] \<and> sp_host p = collector_hostname)"

text \<open>The invariant of the scan: online keeps the last, offline the first, the others in order.\<close>

lemma fold_scan:
  "fold scan_step ps s =
     \<lparr>sc_peers = sc_peers s @ map (\<lambda>p. (sp_host p, sp_ip4 p))
        (filter (\<lambda>p. sp_ip4 p \<noteq> [] \<and> sp_online p \<and> sp_host p \<noteq> collector_hostname) ps),
      sc_offline = (case sc_offline s of Some ip \<Rightarrow> Some ip
        | None \<Rightarrow> map_option sp_ip4 (find (\<lambda>p. is_collector p \<and> \<not> sp_online p) ps)),
      sc_online = (case find (\<lambda>p. is_collector p \<and> sp_online p) (rev ps) of
          Some p \<Rightarrow> Some (sp_ip4 p) | None \<Rightarrow> sc_online s)\<rparr>"
proof (induction ps arbitrary: s)
  case Nil
  then show ?case by (cases "sc_offline s") simp_all
next
  case (Cons p ps)
  have f: "find P (xs @ [x]) = (case find P xs of Some y \<Rightarrow> Some y | None \<Rightarrow> if P x then Some x else None)"
    for P :: "status_peer \<Rightarrow> bool" and xs x
    by (induction xs) auto
  consider "sp_ip4 p = []" | "is_collector p" "sp_online p" | "is_collector p" "\<not> sp_online p"
    | "sp_ip4 p \<noteq> []" "\<not> is_collector p" by (auto simp: is_collector_def)
  then show ?case
  proof cases
    case 1
    then have "scan_step p s = s" "\<not> is_collector p" by (simp_all add: scan_step_def is_collector_def)
    with 1 show ?thesis by (simp add: Cons.IH f split: option.split)
  next
    case 2
    then have "scan_step p s = s\<lparr>sc_online := Some (sp_ip4 p)\<rparr>" "sp_host p = collector_hostname"
      by (simp_all add: scan_step_def is_collector_def)
    with 2 show ?thesis by (simp add: Cons.IH f split: option.split)
  next
    case 3
    then have "scan_step p s = (if sc_offline s = None then s\<lparr>sc_offline := Some (sp_ip4 p)\<rparr> else s)"
      by (simp add: scan_step_def is_collector_def)
    with 3 show ?thesis by (simp add: Cons.IH f split: option.split)
  next
    case 4
    then have "scan_step p s =
        (if sp_online p then s\<lparr>sc_peers := sc_peers s @ [(sp_host p, sp_ip4 p)]\<rparr> else s)"
      "sp_host p \<noteq> collector_hostname"
      by (simp_all add: scan_step_def is_collector_def)
    with 4 show ?thesis by (simp add: Cons.IH f split: option.split)
  qed
qed

text \<open>The reporter posts to an online collector whenever the tailnet shows one with an IPv4 address,
  to the last of them; to an offline one, the first, only when none is online; and it pings exactly
  the online peers with an IPv4 address that are not the collector, in order.\<close>

theorem reporter_prefers_online_collector:
  "peers_and_collector ps =
     (map (\<lambda>p. (sp_host p, sp_ip4 p))
        (filter (\<lambda>p. sp_ip4 p \<noteq> [] \<and> sp_online p \<and> sp_host p \<noteq> collector_hostname) ps),
      case find (\<lambda>p. is_collector p \<and> sp_online p) (rev ps) of
        Some p \<Rightarrow> Some (sp_ip4 p)
      | None \<Rightarrow> map_option sp_ip4 (find (\<lambda>p. is_collector p \<and> \<not> sp_online p) ps))"
  by (simp add: peers_and_collector_def chosen_collector_def fold_scan empty_scan_def split: option.split)

subsection \<open>Agreement with the collector\<close>

text \<open>The reporter reads a ping result exactly as the collector does, errors included.\<close>

theorem ping_peer_agrees:
  "ping_peer ex ip = rbind (localapi_ping ex ip) parse_pingresult"
  by (cases "localapi_answer (ex ''POST'' (ping_url ip ''disco''))")
    (auto simp: ping_peer_def parse_pingresult_def localapi_ping_def failed_ping_def ping_path_def Let_def
      py_or_def dget_def split: json.split option.split)

subsection \<open>From a ping to the health check\<close>

text \<open>What a client sees of the collector's answer: its status, or a dropped connection.\<close>

definition answered :: "response res \<Rightarrow> int option" where
  "answered r = (case r of Inl _ \<Rightarrow> None | Inr resp \<Rightarrow> Some (rs_status resp))"

lemma posted_round:
  assumes "reporter_round name ex post = Inr (Posted ip ss ok)"
  shows "ss \<noteq> []" and "ok \<longleftrightarrow> post ip (report_bytes name ss) = Some 200"
  using assms
  by (auto simp: reporter_round_def res_simps post_to_collector_def dest!: rmap_length
      split: prod.splits option.splits if_splits)

lemma latency_row_src_ts [simp]: "lt_src (latency_row t src s) = src" "lt_ts (latency_row t src s) = t"
  by (simp_all add: latency_row_def)

text \<open>The round-trip time of a sample survives its text.\<close>

definition readable_sample :: "sample \<Rightarrow> bool" where
  "readable_sample s = (case s_rtt s of None \<Rightarrow> True | Some x \<Rightarrow> reads_back x)"

lemma plain_report_payload: "list_all readable_sample ss \<Longrightarrow> plain (report_payload name ss)"
  by (auto simp: report_payload_def json_of_sample_def json_of_rtt_def readable_sample_def list_all_iff
      split: option.splits)

lemma delivered_bytes:
  assumes "list_all readable_sample ss"
  shows "content_length (report_request client (report_bytes name ss)) = Inr (int (length (report_bytes name ss)))"
    and "request_json (report_request client (report_bytes name ss)) (int (length (report_bytes name ss)))
      = Inr (report_payload name ss)"
proof -
  have n: "int_str i \<noteq> []" for i by (simp add: int_str_def)
  show "content_length (report_request client (report_bytes name ss)) = Inr (int (length (report_bytes name ss)))"
    using n by (simp add: content_length_def report_request_def parse_int_int_str)
  have d: "dumps (report_payload name ss) \<noteq> []" by (simp add: report_payload_def)
  then have "report_bytes name ss \<noteq> []"
    by (cases "dumps (report_payload name ss)") (auto simp: report_bytes_def utf8_encode_def utf8_char_def)
  with d loads_dumps [OF plain_report_payload [OF assms, of name]]
  show "request_json (report_request client (report_bytes name ss)) (int (length (report_bytes name ss)))
      = Inr (report_payload name ss)"
    by (simp add: request_json_def report_request_def) (simp add: report_bytes_def utf8_roundtrip)
qed

lemma delivered_report:
  assumes "clean name" and "list_all wf_sample ss" and "list_all readable_sample ss"
    and "is_allowed_report_src client"
  shows "do_POST (report_request client (report_bytes name ss)) now d =
    (Inr (send_json 200 (JObj [(''ok'', JBool True), (''stored'', JInt (int (length ss)))])),
     d\<lparr>latencies := latencies d @ map (latency_row now name) ss\<rparr>)"
proof -
  have "route ''/metrics/report'' = ''/metrics/report''" by code_simp
  then have "authed (report_request client (report_bytes name ss))"
    "route (rq_path (report_request client (report_bytes name ss))) = ''/metrics/report''"
    using assms(4) by (simp_all add: authed_def report_request_def)
  with delivered_bytes [OF assms(3), of client name] validate_report_payload [OF assms(1,2)]
  show ?thesis by (simp add: do_POST_def post_report_def record_report_def report_devices_def)
qed


lemma db_steps_keep_latencies:
  "db_step\<^sup>*\<^sup>* s s' \<Longrightarrow> set (latencies (snd s)) \<subseteq> set (latencies (snd s'))"
proof (induction rule: rtranclp_induct)
  case (step s1 s2)
  from step.hyps(2) have "set (latencies (snd s1)) \<subseteq> set (latencies (snd s2))"
    by (cases rule: db_step.cases) (auto simp: upsert_db_def record_samples_def record_report_def record_netcheck_def)
  with step.IH show ?case by blast
qed simp

lemma query_latency_all:
  assumes "length (filter (\<lambda>r. now - w \<le> lt_ts r) (latencies d)) \<le> 10000"
  shows "set (query_latency now w d) = {r \<in> set (latencies d). now - w \<le> lt_ts r}"
  using assms by (simp add: query_latency_def)

text \<open>Whatever the poll loop and other reporters write in between, a reporter whose round was stored is
  not reported stale by a health check inside the window, as long as the window holds no more rows
  than the query reads.\<close>

theorem reporter_stays_fresh:
  assumes "reporter_round name ex post = Inr (Posted ip ss ok)"
    and "clean name" and "list_all wf_sample ss" and "list_all readable_sample ss"
    and "is_allowed_report_src client"
    and "db_step\<^sup>*\<^sup>* (now, snd (do_POST (report_request client (report_bytes name ss)) now d)) (t, d2)"
    and "t - now \<le> w"
    and "length (filter (\<lambda>r. t - w \<le> lt_ts r) (latencies d2)) \<le> 10000"
  shows "name \<notin> set (stale_reporters (query_latency t w d2) expected t w)"
proof -
  obtain s where s: "s \<in> set ss" using posted_round(1) [OF assms(1)] by (cases ss) auto
  let ?r = "latency_row now name s"
  have "?r \<in> set (latencies (snd (do_POST (report_request client (report_bytes name ss)) now d)))"
    using s delivered_report [OF assms(2-5), of now d] by simp
  then have "?r \<in> set (latencies d2)" using db_steps_keep_latencies [OF assms(6)] by auto
  then have "?r \<in> set (query_latency t w d2)" using query_latency_all [OF assms(8)] assms(7) by simp
  then show ?thesis using assms(7) by (force simp: stale_reporters_def)
qed

text \<open>A tailnet with an online collector and one other peer, whose ping takes a second.\<close>

definition sample_tailnet :: json where
  "sample_tailnet = JObj [(''Peer'', JObj
     [(''a'', JObj [(''HostName'', JStr ''collector''), (''TailscaleIPs'', JArr [JStr ''100.64.0.1'']),
        (''Online'', JBool True)]),
      (''b'', JObj [(''HostName'', JStr ''ITop''), (''TailscaleIPs'', JArr [JStr ''100.64.0.9'']),
        (''Online'', JBool True)])])]"

definition sample_exchange :: exchange where
  "sample_exchange m u =
     (if m = ''GET'' then Reply 200 (utf8_encode (dumps sample_tailnet))
      else Reply 200 ''{\"LatencySeconds\": 1, \"Endpoint\": \"1.2.3.4:41641\"}'')"

definition itop_up :: sample where
  "itop_up = \<lparr>s_dst = ''itop'', s_dst_ip = ''100.64.0.9'', s_rtt = Some (Fin 1000),
     s_path = ''direct'', s_ok = True\<rparr>"

lemma sample_round:
  "reporter_round ''vpn3'' sample_exchange post
     = Inr (Posted ''100.64.0.1'' [itop_up] (post_to_collector ''vpn3'' post ''100.64.0.1'' [itop_up]))"
proof -
  have g: "get_peers_and_collector sample_exchange = Inr ([(''itop'', ''100.64.0.9'')], Some ''100.64.0.1'')"
    by code_simp
  have "localapi_answer (sample_exchange ''POST'' u)
      = Inr (JObj [(''LatencySeconds'', JInt 1), (''Endpoint'', JStr ''1.2.3.4:41641'')])" for u
    unfolding sample_exchange_def by simp code_simp
  then have "ping_peer sample_exchange ''100.64.0.9'' = Inr \<lparr>p_ok = True, p_rtt = Some (Fin 1000), p_path = ''direct''\<rparr>"
    by (simp add: ping_peer_def dget_def py_or_def float_of_int_def float_eval)
  then show ?thesis
    by (simp add: reporter_round_def g itop_up_def sample_of_def)
qed

definition vpn3_post :: http_request where
  "vpn3_post = report_request ''100.64.0.7'' (report_bytes ''vpn3'' [itop_up])"

definition vpn3_poster :: poster where
  "vpn3_poster ip payload = answered (fst (do_POST (report_request ''100.64.0.7'' payload) 50 empty_db))"

lemma repr_second: "float_repr (Fin 1000) = ''1000.0''"
proof -
  have e: "lead_exp 10 pow10 1000 = 3" by code_simp
  have "decimal_at 1000 1 = (1, 3)" by (simp add: decimal_at_def Let_def e pow10_def)
  moreover have "(16 :: nat) = Suc 15" by simp
  ultimately have "shortest_from 16 1 1000 = (1, 3)" by (simp only: shortest_from.simps) (simp add: pow10_def float_eval)
  moreover have "nat_digits 1 = ''1''" "rstrip_char (CHR ''0'') ''1'' = ''1''" "replicate 3 (CHR ''0'') = ''000''" by code_simp+
  ultimately show ?thesis by (simp add: pos_repr_def Let_def)
qed

lemma parse_second: "parse_float ''1000.0'' = Some (Fin 1000)"
proof -
  have "lower (strip ''1000.0'') = ''1000.0''" "split1 ''e'' ''1000.0'' = (''1000.0'', None)"
    "split1 ''.'' ''1000.0'' = (''1000'', Some ''0'')" "opt_digits ''1000'' = Some ''1000''" "opt_digits ''0'' = Some ''0''"
    "digits_val ''10000'' = 10000" "parse_exponent None = Some 0" by code_simp+
  then show ?thesis by (simp add: parse_float_def parse_unsigned_def pow10_def float_eval)
qed

lemma reads_back_second: "reads_back (Fin 1000)"
proof -
  have "number_int ''1000.0'' = Some (''1000'', ''.0'')" "number_frac ''.0'' = (''.0'', [])" "number_exp [] = ([], [])" by code_simp+
  then show ?thesis using repr_second by (simp add: reads_back_def json_number_def parse_second)
qed

lemma vpn3_facts:
  "clean ''vpn3''" "list_all wf_sample [itop_up]" "list_all readable_sample [itop_up]"
  "is_allowed_report_src ''100.64.0.7''"
proof -
  show "clean ''vpn3''" "list_all wf_sample [itop_up]" by code_simp+
  show "list_all readable_sample [itop_up]" using reads_back_second by (simp add: readable_sample_def itop_up_def)
  have "''100.64.0.7'' = dotted 100 64 0 7" by code_simp
  then show "is_allowed_report_src ''100.64.0.7''" by (simp add: allowed_dotted allowed_v4_def)
qed


theorem reporter_stays_fresh_witness:
  "''vpn3'' \<notin> set (stale_reporters
     (query_latency 60 180 (snd (do_POST vpn3_post 50 empty_db))) [''vpn3'', ''vpn4''] 60 180)"
proof -
  let ?d = "snd (do_POST vpn3_post 50 empty_db)"
  have "db_step\<^sup>*\<^sup>* (50, ?d) (60, ?d)" by (rule r_into_rtranclp) (simp add: db_step.tick)
  moreover have "length (filter (\<lambda>r. 60 - 180 \<le> lt_ts r) (latencies ?d)) \<le> 10000"
    using delivered_report [OF vpn3_facts, of 50 empty_db] by (simp add: vpn3_post_def empty_db_def latency_row_def)
  ultimately show ?thesis
    using reporter_stays_fresh [OF sample_round [of vpn3_poster] vpn3_facts, of 50 empty_db 60 ?d 180]
    by (simp add: vpn3_post_def)
qed

end
