(* ===== verification/Fleet.thy ===== *)
theory Fleet
  imports Service Reporter
begin

text \<open>
  The relays and the control server together: the reporters of \<open>ping-reporter/reporter.py\<close> post to the
  running service of \<open>node-dedup/dedup.py\<close> while its poll loop writes, and an uptime monitor asks the
  service for \<open>/metrics/health\<close>. What a GET answers is \<open>do_GET\<close> on the database of that moment.
\<close>

definition answer_get :: "settings \<Rightarrow> http_request \<Rightarrow> surroundings \<Rightarrow> service \<Rightarrow> response res" where
  "answer_get st rq su s = do_GET (collector_settings st) rq su (sv_db s)"

definition report_event :: "string \<Rightarrow> string \<Rightarrow> sample list \<Rightarrow> event" where
  "report_event client name ss = Post (report_request client (report_bytes name ss))"

lemma report_event_db:
  assumes "clean name" and "list_all wf_sample ss" and "list_all readable_sample ss"
    and "is_allowed_report_src client" and "\<And>e. sv_phase s \<noteq> Stopped e"
  shows "sv_db (happen st (report_event client name ss) s)
    = (sv_db s)\<lparr>latencies := latencies (sv_db s) @ map (latency_row (sv_time s) name) ss\<rparr>"
  using delivered_report [OF assms(1-4), of "sv_time s" "sv_db s"] assms(5)
  by (simp add: report_event_def split: phase.split)

lemma report_stays:
  assumes "clean name" and "list_all wf_sample ss" and "list_all readable_sample ss"
    and "is_allowed_report_src client" and "\<And>e. sv_phase s \<noteq> Stopped e" and "x \<in> set ss"
  shows "latency_row (sv_time s) name x
    \<in> set (latencies (sv_db (run_service st es (happen st (report_event client name ss) s))))"
  using db_steps_keep_latencies [OF run_writes [of "happen st (report_event client name ss) s" st es]]
    report_event_db [OF assms(1-5), of st] assms(6) by auto


definition monitor_request :: http_request where
  "monitor_request = home_request\<lparr>rq_path := ''/metrics/health?expect=vpn3''\<rparr>"

definition busy_hour :: "event list" where
  "busy_hour = [Main down, Tick 60, Restart, Tick 90]"


end
