(* ===== verification/ClientKeys.thy ===== *)
theory ClientKeys
  imports PyLoads
begin

text \<open>
  The client keys of the proxy as \<open>cliproxy/pgstore-keys.py\<close> reads them out of its configuration
  files: \<open>_scalar\<close>, \<open>_flow_list\<close>, \<open>keys_from_text\<close>, \<open>extract\<close> and \<open>read_wanted\<close>. A file is the text
  \<open>read_text\<close> gives, nothing when it raises \<open>OSError\<close>.
\<close>

type_synonym files = "string \<Rightarrow> string option"

subsection \<open>Scalars and flow lists\<close>

text \<open>\<open>len(line) - len(line.lstrip(" "))\<close>.\<close>

definition indent_of :: "string \<Rightarrow> nat" where
  "indent_of line = length (takeWhile (\<lambda>c. c = CHR '' '') line)"

text \<open>The text after an opening double quote, up to the first quote that is not escaped.\<close>

fun dq_take :: "string \<Rightarrow> string" where
  "dq_take [] = []"
| "dq_take (c # s) =
     (if c = CHR 0x5C then (case s of [] \<Rightarrow> [c] | d # t \<Rightarrow> c # d # dq_take t)
      else if c = CHR 0x22 then [c]
      else c # dq_take s)"

text \<open>The text after an opening single quote, up to the first quote that is not doubled.\<close>

fun sq_take :: "string \<Rightarrow> string option" where
  "sq_take [] = None"
| "sq_take (c # s) =
     (if c = CHR 0x27 then
        (case s of
           [] \<Rightarrow> Some []
         | d # t \<Rightarrow> if d = CHR 0x27 then map_option (\<lambda>b. c # d # b) (sq_take t) else Some [])
      else map_option (Cons c) (sq_take s))"

text \<open>The part of a line before a trailing comment.\<close>

definition cut_comment :: "string \<Rightarrow> string" where
  "cut_comment v = (if contains '' #'' v then rstrip (fst (split1 '' #'' v)) else v)"

definition no_scalar_start :: "char set" where
  "no_scalar_start = {CHR ''{'', CHR ''['', CHR ''&'', CHR ''*'', CHR ''!''}"

definition scalar :: "string \<Rightarrow> string option res" where
  "scalar raw =
     (case strip raw of
        [] \<Rightarrow> Inr None
      | c # t \<Rightarrow>
          if c = CHR ''#'' then Inr None
          else if c = CHR 0x22 then
            (case loads (c # dq_take t) of
               Inr j \<Rightarrow> (case j of JStr s \<Rightarrow> Inr (Some s) | _ \<Rightarrow> Inl OutOfSchema)
             | Inl e \<Rightarrow> (case e of ValueError _ \<Rightarrow> Inr None | _ \<Rightarrow> Inl e))
          else if c = CHR 0x27 then
            Inr (map_option (replace_all [CHR 0x27, CHR 0x27] [CHR 0x27]) (sq_take t))
          else
            (let v = cut_comment (c # t) in
             if contains '': '' v \<or> ends_with '':'' v \<or> hd v \<in> no_scalar_start then Inr None
             else Inr (Some v)))"

definition nonempty_strs :: "json list \<Rightarrow> string list" where
  "nonempty_strs xs = somes (map (\<lambda>j. case j of JStr s \<Rightarrow> if s = [] then None else Some s | _ \<Rightarrow> None) xs)"

definition flow_list :: "string \<Rightarrow> string list option res" where
  "flow_list raw =
     (let v0 = strip raw;
          v = (if contains '' #'' v0 \<and> \<not> starts_with [CHR ''['', CHR 0x22] v0 then cut_comment v0 else v0) in
      if \<not> (starts_with ''['' v \<and> ends_with '']'' v) then Inr None
      else case loads v of
        Inr j \<Rightarrow> (case j of JArr xs \<Rightarrow> Inr (Some (nonempty_strs xs)) | _ \<Rightarrow> Inl OutOfSchema)
      | Inl e \<Rightarrow>
          (case e of
             ValueError _ \<Rightarrow>
               (let inner = strip (butlast (tl v)) in
                if inner = [] then Inr (Some [])
                else rbind (rmap scalar (split_char (CHR '','') inner)) (\<lambda>vs.
                  Inr (Some (filter (\<lambda>k. k \<noteq> []) (somes vs)))))
           | _ \<Rightarrow> Inl e))"

subsection \<open>keys_from_text\<close>

definition comment_or_blank :: "string \<Rightarrow> bool" where
  "comment_or_blank s = (s = [] \<or> hd s = CHR ''#'')"

definition add_key :: "string option \<Rightarrow> string list \<Rightarrow> string list" where
  "add_key v ks = (case v of None \<Rightarrow> ks | Some k \<Rightarrow> if k = [] then ks else k # ks)"

text \<open>The inner loop: the items of a block whose header is indented by \<open>indent\<close>, and the lines after it.\<close>

fun key_items :: "nat \<Rightarrow> string list \<Rightarrow> (string list \<times> string list) res" where
  "key_items indent [] = Inr ([], [])"
| "key_items indent (item # ls) =
     (let s = strip item; ind = indent_of item in
      if comment_or_blank s then key_items indent ls
      else if ind < indent \<or> (ind = indent \<and> \<not> starts_with ''- '' s) then Inr ([], item # ls)
      else if starts_with ''- '' s \<and> ind \<le> indent + 2 then
        rbind (scalar (drop 2 s)) (\<lambda>v. rbind (key_items indent ls) (\<lambda>(ks, r). Inr (add_key v ks, r)))
      else key_items indent ls)"

lemma key_items_length: "key_items indent ls = Inr (ks, r) \<Longrightarrow> length r \<le> length ls"
proof (induction indent ls arbitrary: ks rule: key_items.induct)
  case (2 indent item ls)
  then show ?case by (fastforce simp: Let_def res_simps split: if_splits)
qed simp

definition top_level :: "string \<Rightarrow> bool" where
  "top_level line = (indent_of line = 0 \<and> \<not> comment_or_blank (strip line))"

definition in_access :: "bool \<Rightarrow> string \<Rightarrow> bool" where
  "in_access parent line = (if top_level line then starts_with ''access:'' (strip line) else parent)"

definition keys_header :: "bool \<Rightarrow> string \<Rightarrow> bool" where
  "keys_header parent line =
     (starts_with ''api-keys:'' (strip line) \<and> (indent_of line = 0 \<or> in_access parent line))"

lemma rbind_cong [fundef_cong]: "r = r' \<Longrightarrow> (\<And>x. r' = Inr x \<Longrightarrow> f x = f' x) \<Longrightarrow> rbind r f = rbind r' f'"
  by (cases r') simp_all

text \<open>The outer loop, with \<open>parent_access\<close>.\<close>

function key_lines :: "bool \<Rightarrow> string list \<Rightarrow> string list res" where
  "key_lines parent [] = Inr []"
| "key_lines parent (line # ls) =
     (if \<not> keys_header parent line then key_lines (in_access parent line) ls
      else
        rbind (flow_list (drop 9 (strip line))) (\<lambda>fl.
          case fl of
            Some ks \<Rightarrow> rbind (key_lines (in_access parent line) ls) (\<lambda>ks'. Inr (ks @ ks'))
          | None \<Rightarrow>
              rbind (key_items (indent_of line) ls) (\<lambda>kr.
                rbind (key_lines (in_access parent line) (snd kr)) (\<lambda>ks'. Inr (fst kr @ ks')))))"
  by pat_completeness auto
termination
  by (relation "measure (\<lambda>(p, ls). length ls)") (auto dest: key_items_length)

definition keys_from_text :: "string \<Rightarrow> string list res" where
  "keys_from_text text = rbind (key_lines False (splitlines text)) (\<lambda>found. Inr (add_all_new found []))"

subsection \<open>extract and read_wanted\<close>

definition KHOA_MAU :: "string set" where
  "KHOA_MAU = {''your-api-key-1'', ''your-api-key-2'', ''your-api-key-3''}"

definition kept_key :: "string \<Rightarrow> bool" where
  "kept_key k = (k \<notin> KHOA_MAU \<and> \<not> starts_with ''__'' k)"

definition file_keys :: "files \<Rightarrow> string \<Rightarrow> string list res" where
  "file_keys fs p = (case fs p of None \<Rightarrow> Inr [] | Some text \<Rightarrow> keys_from_text text)"

definition extract_keys :: "files \<Rightarrow> string list \<Rightarrow> string list res" where
  "extract_keys fs paths =
     rbind (rmap (file_keys fs) paths) (\<lambda>kss. Inr (add_all_new (filter kept_key (concat kss)) []))"

definition read_wanted :: "string \<Rightarrow> string list" where
  "read_wanted text = add_all_new (filter (\<lambda>k. k \<noteq> []) (map strip (splitlines text))) []"

text \<open>What \<open>main\<close> writes for \<open>extract\<close>, which the deployment stores in \<open>.keys-wanted\<close>.\<close>

definition wanted_text :: "string list \<Rightarrow> string" where
  "wanted_text ks = concat (map (\<lambda>k. k @ [NL]) ks)"

lemma keys_examples:
  "keys_from_text (join [NL] [''api-keys:'', ''  - a # x'', '''', ''  # c'', ''  - b: c'', ''  - d'', ''x: y'',
     ''access:'', ''  api-keys: [e, a]'']) = Inr [''a'', ''d'', ''e'']"
  by code_simp

subsection \<open>What is found\<close>

lemma flow_list_nonempty: "flow_list raw = Inr (Some ks) \<Longrightarrow> [] \<notin> set ks"
  by (auto simp: flow_list_def Let_def res_simps nonempty_strs_def
      split: if_splits sum.splits json.splits pyexn.splits)

lemma key_items_nonempty: "key_items indent ls = Inr (ks, r) \<Longrightarrow> [] \<notin> set ks"
proof (induction indent ls arbitrary: ks rule: key_items.induct)
  case (2 indent item ls)
  let ?s = "strip item" and ?ind = "indent_of item"
  consider "comment_or_blank ?s"
    | "\<not> comment_or_blank ?s" "?ind < indent \<or> (?ind = indent \<and> \<not> starts_with ''- '' ?s)"
    | "\<not> comment_or_blank ?s" "\<not> (?ind < indent \<or> (?ind = indent \<and> \<not> starts_with ''- '' ?s))"
      "starts_with ''- '' ?s \<and> ?ind \<le> indent + 2"
    | "\<not> comment_or_blank ?s" "\<not> (?ind < indent \<or> (?ind = indent \<and> \<not> starts_with ''- '' ?s))"
      "\<not> (starts_with ''- '' ?s \<and> ?ind \<le> indent + 2)" by blast
  then show ?case
  proof cases
    case 1
    then have "key_items indent ls = Inr (ks, r)" using "2.prems" by (simp add: Let_def)
    then show ?thesis by (rule "2.IH"(1) [OF refl refl 1])
  next
    case 2
    then show ?thesis using "2.prems" by (simp add: Let_def)
  next
    case 3
    from "2.prems" obtain v ks' where k: "key_items indent ls = Inr (ks', r)" and ks: "ks = add_key v ks'"
      unfolding key_items.simps Let_def if_not_P [OF 3(1)] if_not_P [OF 3(2)] if_P [OF 3(3)]
      by (auto simp: res_simps)
    have "[] \<notin> set ks'" by (rule "2.IH"(2) [OF refl refl 3 k])
    then show ?thesis by (simp add: ks add_key_def split: option.split)
  next
    case 4
    have "key_items indent ls = Inr (ks, r)"
      using "2.prems" unfolding key_items.simps Let_def if_not_P [OF 4(1)] if_not_P [OF 4(2)] if_not_P [OF 4(3)] .
    then show ?thesis by (rule "2.IH"(3) [OF refl refl 4])
  qed
qed simp

text \<open>The three ways a line is read, and induction over them.\<close>

lemma key_lines_skip: "\<not> keys_header p l \<Longrightarrow> key_lines p (l # ls) = key_lines (in_access p l) ls"
  by simp

lemma key_lines_flow:
  "keys_header p l \<Longrightarrow> flow_list (drop 9 (strip l)) = Inr (Some ks) \<Longrightarrow>
   key_lines p (l # ls) = rbind (key_lines (in_access p l) ls) (\<lambda>ks'. Inr (ks @ ks'))"
  by simp

lemma key_lines_block:
  "keys_header p l \<Longrightarrow> flow_list (drop 9 (strip l)) = Inr None \<Longrightarrow>
   key_lines p (l # ls) = rbind (key_items (indent_of l) ls) (\<lambda>kr.
     rbind (key_lines (in_access p l) (snd kr)) (\<lambda>ks'. Inr (fst kr @ ks')))"
  by simp

lemma key_lines_cases:
  assumes "key_lines p (l # ls) = Inr ks"
  obtains (skip) "\<not> keys_header p l" "key_lines (in_access p l) ls = Inr ks"
  | (flow) k1 k2 where "keys_header p l" "flow_list (drop 9 (strip l)) = Inr (Some k1)"
      "key_lines (in_access p l) ls = Inr k2" "ks = k1 @ k2"
  | (block) k1 r k2 where "keys_header p l" "flow_list (drop 9 (strip l)) = Inr None"
      "key_items (indent_of l) ls = Inr (k1, r)" "length r \<le> length ls"
      "key_lines (in_access p l) r = Inr k2" "ks = k1 @ k2"
proof (cases "keys_header p l")
  case False
  with assms show thesis by (intro skip) simp_all
next
  case True
  with assms obtain fl where fl: "flow_list (drop 9 (strip l)) = Inr fl" by (auto simp: res_simps)
  show thesis
  proof (cases fl)
    case (Some k1)
    with assms True fl show thesis
      by (auto simp: key_lines_flow res_simps simp del: key_lines.simps intro: flow)
  next
    case None
    with assms True fl show thesis
      by (auto simp: key_lines_block res_simps simp del: key_lines.simps intro: block key_items_length)
  qed
qed

lemma key_lines_nonempty: "key_lines p ls = Inr ks \<Longrightarrow> [] \<notin> set ks"
proof (induction "length ls" arbitrary: p ls ks rule: less_induct)
  case less
  show ?case
  proof (cases ls)
    case (Cons l ls')
    from less.prems [unfolded Cons] show ?thesis
    proof (cases rule: key_lines_cases)
      case skip
      with less.hyps [OF _ skip(2)] Cons show ?thesis by simp
    next
      case (flow k1 k2)
      with less.hyps [of ls' _ k2] Cons flow_list_nonempty show ?thesis by auto
    next
      case (block k1 r k2)
      with less.hyps [of r _ k2] Cons key_items_nonempty show ?thesis by auto
    qed
  qed (use less.prems in simp)
qed

lemma keys_from_text_nonempty: "keys_from_text text = Inr ks \<Longrightarrow> [] \<notin> set ks \<and> distinct ks"
  by (auto simp: keys_from_text_def res_simps dest: key_lines_nonempty)

lemma extract_keys_wf: "extract_keys fs paths = Inr ks \<Longrightarrow> distinct ks \<and> [] \<notin> set ks"
proof -
  assume "extract_keys fs paths = Inr ks"
  then obtain kss where kss: "rmap (file_keys fs) paths = Inr kss"
    and ks: "ks = add_all_new (filter kept_key (concat kss)) []"
    by (auto simp: extract_keys_def res_simps)
  have "[] \<notin> set fk" if "fk \<in> set kss" for fk
    using rmap_member [OF kss that] keys_from_text_nonempty by (auto simp: file_keys_def split: option.splits)
  then show ?thesis by (auto simp: ks)
qed


definition two_configs :: files where
  "two_configs p =
     (if p = ''config.yaml'' then Some (join [NL] [''api-keys:'', ''  - your-api-key-1'', ''  - k1'', ''  - __API_KEY__''])
      else if p = ''spool.yaml'' then Some (join [NL] [''access:'', ''  api-keys: [k2, k1]''])
      else None)"

lemma two_configs_keys: "extract_keys two_configs [''config.yaml'', ''gone.yaml'', ''spool.yaml''] = Inr [''k1'', ''k2'']"
  by code_simp


text \<open>The keys that extraction writes, one per line, are read back as they were, as long as none has white
  space around it or a line boundary inside.\<close>

theorem wanted_roundtrip:
  assumes "extract_keys fs paths = Inr ks" and "list_all (\<lambda>k. strip k = k \<and> unbroken k) ks"
  shows "read_wanted (wanted_text ks) = ks"
proof -
  have "distinct ks" "[] \<notin> set ks" using extract_keys_wf [OF assms(1)] by simp_all
  moreover have "splitlines (wanted_text ks) = ks"
    using assms(2) by (induction ks) (simp_all add: wanted_text_def splitlines_line)
  ultimately show ?thesis
    using assms(2) by (auto simp: read_wanted_def list_all_iff map_idI filter_id_conv uniq_simps)
qed

theorem wanted_roundtrip_witness: "read_wanted (wanted_text [''k1'', ''k2'']) = [''k1'', ''k2'']"
proof -
  have "list_all (\<lambda>k. strip k = k \<and> unbroken k) [''k1'', ''k2'']" by code_simp
  with wanted_roundtrip [OF two_configs_keys] show ?thesis by simp
qed

end
