(* ===== verification/Http.thy ===== *)
theory Http
  imports PyLoads
begin

text \<open>
  What the scripts that talk to a management API share: requests, the answers of \<open>urlopen\<close>, and a
  world with a server, a clock and \<open>sleep\<close>, all parameters of the models. An answer of any status is
  \<open>Answer\<close> (\<open>urlopen\<close> raises \<open>HTTPError\<close> for most, which carries status and body); no answer at all
  (\<open>URLError\<close>, \<open>OSError\<close>) is \<open>NoAnswer\<close>. Bodies of answers are bytes. An action gives its result, or
  the exception it raised, and the world it leaves.
\<close>

datatype body = NoBody | JsonBody json | RawBody string string

record request =
  ht_method :: string
  ht_url :: string
  ht_token :: string
  ht_body :: body

datatype answer = NoAnswer | Answer (an_code: int) (an_raw: string)

record 'w world =
  wd_server :: "request \<Rightarrow> 'w \<Rightarrow> answer \<times> 'w"
  wd_time :: "'w \<Rightarrow> rat"
  wd_sleep :: "rat \<Rightarrow> 'w \<Rightarrow> 'w"

type_synonym ('a, 'w) action = "'w \<Rightarrow> 'a res \<times> 'w"

definition abind :: "('a, 'w) action \<Rightarrow> ('a \<Rightarrow> ('b, 'w) action) \<Rightarrow> ('b, 'w) action" where
  "abind m f w = (case m w of (Inl e, w') \<Rightarrow> (Inl e, w') | (Inr x, w') \<Rightarrow> f x w')"

definition aret :: "'a \<Rightarrow> ('a, 'w) action" where
  "aret x w = (Inr x, w)"

definition araise :: "pyexn \<Rightarrow> ('a, 'w) action" where
  "araise e w = (Inl e, w)"

definition alift :: "'a res \<Rightarrow> ('a, 'w) action" where
  "alift r w = (r, w)"

lemma action_simps [simp]:
  "aret x w = (Inr x, w)" "araise e w = (Inl e, w)" "alift r w = (r, w)"
  by (simp_all add: aret_def araise_def alift_def)

lemma abind_simps [simp]:
  "m w = (Inl e, w') \<Longrightarrow> abind m f w = (Inl e, w')"
  "m w = (Inr x, w') \<Longrightarrow> abind m f w = f x w'"
  by (simp_all add: abind_def)

lemma abind_aret [simp]: "abind (aret x) f w = f x w"
  by (simp add: abind_def)

lemma abind_Inr: "abind m f w = (Inr y, w'') \<longleftrightarrow> (\<exists>x w'. m w = (Inr x, w') \<and> f x w' = (Inr y, w''))"
  by (cases "m w"; cases "fst (m w)") (auto simp: abind_def)

text \<open>A loop of actions that stops at the first exception.\<close>

fun amap :: "('a \<Rightarrow> ('b, 'w) action) \<Rightarrow> 'a list \<Rightarrow> ('b list, 'w) action" where
  "amap f [] = aret []"
| "amap f (x # xs) = abind (f x) (\<lambda>y. abind (amap f xs) (\<lambda>ys. aret (y # ys)))"

text \<open>\<open>repr\<close> of bytes, which error messages show.\<close>

definition repr_byte :: "char \<Rightarrow> char \<Rightarrow> string" where
  "repr_byte q c =
     (if c = q \<or> c = CHR 0x5C then [CHR 0x5C, c]
      else if c = NL then [CHR 0x5C, CHR ''n'']
      else if c = CHR 0x0D then [CHR 0x5C, CHR ''r'']
      else if c = CHR 0x09 then [CHR 0x5C, CHR ''t'']
      else if 32 \<le> code c \<and> code c \<le> 126 then [c]
      else [CHR 0x5C, CHR ''x''] @ hex2 c)"

definition repr_bytes :: "string \<Rightarrow> string" where
  "repr_bytes s =
     (let q = (if CHR 0x27 \<in> set s \<and> CHR 0x22 \<notin> set s then CHR 0x22 else CHR 0x27)
      in CHR ''b'' # q # concat (map (repr_byte q) s) @ [q])"

text \<open>\<open>list(x or [])\<close>.\<close>

definition py_list :: "json \<Rightarrow> json list res" where
  "py_list x =
     (if \<not> truthy x then Inr []
      else case x of
        JArr xs \<Rightarrow> Inr xs
      | JObj d \<Rightarrow> Inr (map (\<lambda>(k, v). JStr k) d)
      | JStr s \<Rightarrow> Inr (map (\<lambda>c. JStr [c]) s)
      | _ \<Rightarrow> Inl TypeError)"

text \<open>The server answers, and the status, the body and the world it leaves are as \<open>Q\<close> says: how the
  documented behaviour of a server is stated.\<close>

definition answers :: "(answer \<times> 'w) \<Rightarrow> (int \<Rightarrow> string \<Rightarrow> 'w \<Rightarrow> bool) \<Rightarrow> bool" where
  "answers aw Q = (case aw of (NoAnswer, w') \<Rightarrow> False | (Answer c raw, w') \<Rightarrow> Q c raw w')"

lemma answers_E:
  assumes "answers aw Q"
  obtains c raw w' where "aw = (Answer c raw, w')" "Q c raw w'"
  using assms by (auto simp: answers_def split: prod.splits answer.splits)

subsection \<open>What actions keep\<close>

text \<open>
  A set of requests, and what holds of the world as long as only they are sent: the frame rule of the
  scripts. \<open>keeps\<close> is closed under the combinators.
\<close>

definition frame :: "'w world \<Rightarrow> (request \<Rightarrow> bool) \<Rightarrow> ('w \<Rightarrow> bool) \<Rightarrow> bool" where
  "frame W sent P =
     ((\<forall>rq w. sent rq \<longrightarrow> P w \<longrightarrow> P (snd (wd_server W rq w))) \<and> (\<forall>s w. P w \<longrightarrow> P (wd_sleep W s w)))"

definition keeps :: "('w \<Rightarrow> bool) \<Rightarrow> ('a, 'w) action \<Rightarrow> bool" where
  "keeps P m = (\<forall>w. P w \<longrightarrow> P (snd (m w)))"

lemma keeps_D: "keeps P m \<Longrightarrow> P w \<Longrightarrow> m w = (r, w') \<Longrightarrow> P w'"
  by (metis keeps_def snd_conv)

lemma keeps_pure [simp, intro]: "keeps P (aret x)" "keeps P (araise e)" "keeps P (alift r)"
  by (simp_all add: keeps_def)

lemma keeps_abind [intro]: "keeps P m \<Longrightarrow> (\<And>x. keeps P (f x)) \<Longrightarrow> keeps P (abind m f)"
  unfolding keeps_def abind_def by (auto split: prod.split sum.split)

lemma keeps_amap [intro]: "(\<And>x. x \<in> set xs \<Longrightarrow> keeps P (f x)) \<Longrightarrow> keeps P (amap f xs)"
  by (induction xs) auto

lemma keeps_server: "frame W sent P \<Longrightarrow> sent rq \<Longrightarrow> P w \<Longrightarrow> wd_server W rq w = (a, w') \<Longrightarrow> P w'"
  unfolding frame_def by (metis snd_conv)

text \<open>The same world with a log of the requests sent. The scripts cannot see the log, so what it holds
  after a run is what a run sends.\<close>

definition logged :: "'w world \<Rightarrow> ('w \<times> request list) world" where
  "logged W =
     \<lparr>wd_server = \<lambda>rq (w, sent). (case wd_server W rq w of (a, w') \<Rightarrow> (a, (w', sent @ [rq]))),
      wd_time = \<lambda>(w, sent). wd_time W w,
      wd_sleep = \<lambda>s (w, sent). (wd_sleep W s w, sent)\<rparr>"

lemma frame_logged: "frame (logged W) may (\<lambda>w. list_all may (snd w))"
  by (auto simp: frame_def logged_def split: prod.split)

text \<open>The worlds that lie ahead: after more requests and more sleep.\<close>

inductive reaches :: "'w world \<Rightarrow> 'w \<Rightarrow> 'w \<Rightarrow> bool" for W where
  here: "reaches W w w"
| request: "reaches W w w1 \<Longrightarrow> reaches W w (snd (wd_server W rq w1))"
| slept: "reaches W w w1 \<Longrightarrow> reaches W w (wd_sleep W s w1)"

lemma reaches_trans: "reaches W w1 w2 \<Longrightarrow> reaches W w w1 \<Longrightarrow> reaches W w w2"
  by (induction rule: reaches.induct) (auto intro: reaches.intros)

lemma frame_reaches: "frame W sent (reaches W w)"
  by (auto simp: frame_def intro: reaches.intros)

lemma keeps_reaches: "(\<And>P. frame W sent P \<Longrightarrow> keeps P m) \<Longrightarrow> m w = (r, w') \<Longrightarrow> reaches W w w'"
  by (metis frame_reaches keeps_D reaches.here)

text \<open>
  The contract of a script with its server: it sends only what it may, so that it keeps whatever such
  requests keep. Its runs in a world with a log then hold nothing else.
\<close>

locale polite_script =
  fixes may :: "request \<Rightarrow> bool"
    and run :: "('w \<times> request list) world \<Rightarrow> ('a, 'w \<times> request list) action"
  assumes run_keeps: "frame W may P \<Longrightarrow> keeps P (run W)"
begin

lemma sends_more:
  "\<exists>more. snd (snd (run (logged W) (w, sent))) = sent @ more \<and> list_all may more"
proof -
  let ?P = "\<lambda>v. \<exists>more. snd v = sent @ more \<and> list_all may more"
  have server: "?P (snd (wd_server (logged W) rq v))" if "may rq" "?P v" for rq v
  proof -
    from that(2) obtain more where "snd v = sent @ more" "list_all may more" by blast
    with that(1) show ?thesis
      by (intro exI [of _ "more @ [rq]"]) (auto simp: logged_def split: prod.split)
  qed
  have "frame (logged W) may ?P"
    unfolding frame_def using server by (auto simp: logged_def)
  from run_keeps [OF this] show ?thesis by (auto simp: keeps_def)
qed

lemma sends_only: "list_all may (snd (snd (run (logged W) (w, []))))"
  using sends_more [of W w "[]"] by auto

end

text \<open>What happened on the way of a loop, element by element.\<close>

lemma amap_Inr:
  assumes k: "\<And>x w. reaches W w (snd (f x w))"
  shows "amap f xs w = (Inr ys, w') \<Longrightarrow>
    reaches W w w' \<and> list_all2 (\<lambda>x y. \<exists>w1 w2. reaches W w w1 \<and> f x w1 = (Inr y, w2) \<and> reaches W w2 w') xs ys"
proof (induction xs arbitrary: w ys)
  case Nil
  then show ?case by (auto intro: reaches.here)
next
  case (Cons x xs)
  from Cons.prems obtain y w1 zs where y: "f x w = (Inr y, w1)" "amap f xs w1 = (Inr zs, w')" "ys = y # zs"
    by (auto simp: abind_Inr)
  have r: "reaches W w w1" using k [of w x] y(1) by simp
  note IH = Cons.IH [OF y(2)]
  have "list_all2 (\<lambda>x y. \<exists>w1 w2. reaches W w w1 \<and> f x w1 = (Inr y, w2) \<and> reaches W w2 w') xs zs"
    by (rule list_all2_mono [OF conjunct2 [OF IH]]) (blast intro: reaches_trans r)
  moreover have "reaches W w w'" by (rule reaches_trans [OF conjunct1 [OF IH] r])
  ultimately show ?case using y IH by (auto intro: reaches.here)
qed

lemma list_all2_member1: "list_all2 P xs ys \<Longrightarrow> x \<in> set xs \<Longrightarrow> \<exists>y \<in> set ys. P x y"
  by (induction xs ys rule: list_all2_induct) auto

lemma list_all2_member2: "list_all2 P xs ys \<Longrightarrow> y \<in> set ys \<Longrightarrow> \<exists>x \<in> set xs. P x y"
  by (induction xs ys rule: list_all2_induct) auto

lemma amap_visits:
  assumes "\<And>x w. reaches W w (snd (f x w))" and "amap f xs w = (Inr ys, w')"
  shows "x \<in> set xs \<Longrightarrow> \<exists>y u1 u2. reaches W w u1 \<and> f x u1 = (Inr y, u2) \<and> reaches W u2 w'"
    and "y \<in> set ys \<Longrightarrow> \<exists>x u1 u2. x \<in> set xs \<and> reaches W w u1 \<and> f x u1 = (Inr y, u2) \<and> reaches W u2 w'"
    and "reaches W w w'"
proof -
  note a = amap_Inr [OF assms]
  show "x \<in> set xs \<Longrightarrow> \<exists>y u1 u2. reaches W w u1 \<and> f x u1 = (Inr y, u2) \<and> reaches W u2 w'"
    using list_all2_member1 [OF conjunct2 [OF a]] by blast
  show "y \<in> set ys \<Longrightarrow> \<exists>x u1 u2. x \<in> set xs \<and> reaches W w u1 \<and> f x u1 = (Inr y, u2) \<and> reaches W u2 w'"
    using list_all2_member2 [OF conjunct2 [OF a]] by blast
  show "reaches W w w'" by (rule conjunct1 [OF a])
qed

text \<open>Between \<open>w\<close> and \<open>w'\<close> the server answered a request with a status of success.\<close>

definition accepted :: "'w world \<Rightarrow> request \<Rightarrow> 'w \<Rightarrow> 'w \<Rightarrow> bool" where
  "accepted W rq w w' =
     (\<exists>w1 c raw w2. reaches W w w1 \<and> wd_server W rq w1 = (Answer c raw, w2) \<and> 200 \<le> c \<and> c < 300 \<and> reaches W w2 w')"

lemma accepted_wider: "accepted W rq w1 w2 \<Longrightarrow> reaches W w w1 \<Longrightarrow> reaches W w2 w' \<Longrightarrow> accepted W rq w w'"
  unfolding accepted_def by (meson reaches_trans)

end
