(* ===== verification/Preflight.thy ===== *)
theory Preflight
  imports ClientKeys Http
begin

text \<open>
  The check before the relays verify their clients, \<open>scripts/verify-preflight.py\<close>: \<open>http\<close>, \<open>verify\<close>
  and \<open>main\<close>, with the exit code as the result. What is printed is not modelled, and with it the text
  of a transport error, but a name that \<open>print\<close> cannot format raises. A body that is not UTF-8 is
  outside the model (the script decodes it with replacement characters).
\<close>

subsection \<open>Requests\<close>

definition http_text :: "'w world \<Rightarrow> request \<Rightarrow> (int \<times> string, 'w) action" where
  "http_text W rq w =
     (if \<not> has_scheme (ht_url rq) then (Inl (ValueError ''unknown url type''), w)
      else case wd_server W rq w of
        (Answer status raw, w') \<Rightarrow> (Inr (status, raw), w')
      | (NoAnswer, w') \<Rightarrow> (Inr (0, []), w'))"

definition text_of :: "string \<Rightarrow> string res" where
  "text_of raw = (case utf8_decode raw of Inl e \<Rightarrow> Inl OutOfSchema | Inr t \<Rightarrow> Inr t)"

definition DUMMY_KEY :: string where
  "DUMMY_KEY = ''nodekey:'' @ concat (replicate 32 ''00'')"

definition verify_request :: "string \<Rightarrow> json \<Rightarrow> request" where
  "verify_request base node_public =
     \<lparr>ht_method = ''POST'', ht_url = base @ ''/verify'', ht_token = [],
      ht_body = JsonBody (JObj [(''NodePublic'', node_public), (''Source'', JStr ''203.0.113.1'')])\<rparr>"

text \<open>\<open>bool(json.loads(text).get("Allow"))\<close>, or \<open>None\<close> when the status or the body is not as it should.\<close>

definition allow_of :: "int \<Rightarrow> string \<Rightarrow> bool option res" where
  "allow_of status raw =
     (if status \<noteq> 200 then Inr None
      else case rbind (text_of raw) (\<lambda>t. rbind (loads t) (\<lambda>j. jget j ''Allow'' JNull)) of
        Inr v \<Rightarrow> Inr (Some (truthy v))
      | Inl e \<Rightarrow> if e = OutOfSchema then Inl OutOfSchema else Inr None)"

definition verify :: "'w world \<Rightarrow> string \<Rightarrow> json \<Rightarrow> (int \<times> bool option, 'w) action" where
  "verify W base node_public =
     abind (http_text W (verify_request base node_public)) (\<lambda>(status, raw).
     abind (alift (allow_of status raw)) (\<lambda>allow. aret (status, allow)))"

definition nodes_request :: "string \<Rightarrow> string \<Rightarrow> request" where
  "nodes_request base hs_key =
     \<lparr>ht_method = ''GET'', ht_url = base @ ''/api/v1/node'', ht_token = ''Bearer '' @ hs_key, ht_body = NoBody\<rparr>"

subsection \<open>The nodes\<close>

text \<open>\<open>json.loads(text).get("nodes", [])\<close> with what \<open>len\<close>, the test for emptiness and \<open>nodes[0].get\<close> make
  of it: the empty list for an empty fleet.\<close>

definition fleet_of :: "string \<Rightarrow> json list res" where
  "fleet_of raw =
     rbind (text_of raw) (\<lambda>t. rbind (loads t) (\<lambda>j. rbind (jget j ''nodes'' (JArr [])) (\<lambda>ns.
       case ns of
         JArr [] \<Rightarrow> Inr []
       | JArr (n # rest) \<Rightarrow> (if is_obj n then Inr (n # rest) else Inl AttributeError)
       | JObj d \<Rightarrow> (if d = [] then Inr [] else Inl KeyError)
       | JStr s \<Rightarrow> (if s = [] then Inr [] else Inl AttributeError)
       | _ \<Rightarrow> Inl TypeError)))"

datatype verdict = Passed json | Refused json | Unclear json

text \<open>\<open>n.get("givenName") or n.get("name") or f"id={n.get('id')}"\<close>, and whether \<open>{name:<28}\<close> can be printed.\<close>

definition node_label :: "jobj \<Rightarrow> json" where
  "node_label d =
     py_or (py_or (dget d ''givenName'' JNull) (dget d ''name'' JNull))
       (JStr (''id='' @ py_str (dget d ''id'' JNull)))"

definition printable_label :: "json \<Rightarrow> bool" where
  "printable_label x = (case x of JArr _ \<Rightarrow> False | JObj _ \<Rightarrow> False | _ \<Rightarrow> True)"

definition verdict_of :: "json \<Rightarrow> int \<times> bool option \<Rightarrow> verdict" where
  "verdict_of name sa =
     (case sa of (status, allow) \<Rightarrow>
        if status \<noteq> 200 \<or> allow = None then Unclear name
        else if allow = Some True then Passed name else Refused name)"

definition check_node :: "'w world \<Rightarrow> string \<Rightarrow> json \<Rightarrow> (verdict, 'w) action" where
  "check_node W base n =
     (case n of
        JObj d \<Rightarrow>
          (let name = node_label d; key = dget d ''nodeKey'' (JStr []) in
           abind (if truthy key then abind (verify W base key) (\<lambda>sa. aret (verdict_of name sa))
                  else aret (Unclear name)) (\<lambda>v.
           if printable_label name then aret v else araise TypeError))
      | _ \<Rightarrow> araise AttributeError)"

subsection \<open>main\<close>

definition is_passed :: "verdict \<Rightarrow> bool" where
  "is_passed v = (case v of Passed _ \<Rightarrow> True | _ \<Rightarrow> False)"

definition is_refused :: "verdict \<Rightarrow> bool" where
  "is_refused v = (case v of Refused _ \<Rightarrow> True | _ \<Rightarrow> False)"

definition is_unclear :: "verdict \<Rightarrow> bool" where
  "is_unclear v = (case v of Unclear _ \<Rightarrow> True | _ \<Rightarrow> False)"

definition conclusion :: "verdict list \<Rightarrow> int" where
  "conclusion vs =
     (let allowed = filter is_passed vs; denied = filter is_refused vs; errored = filter is_unclear vs in
      if allowed = [] then 1
      else if denied \<noteq> [] then 1
      else if errored \<noteq> [] then 1
      else 0)"

definition check_fleet :: "'w world \<Rightarrow> string \<Rightarrow> string \<Rightarrow> (int, 'w) action" where
  "check_fleet W base hs_key =
     abind (http_text W (nodes_request base hs_key)) (\<lambda>(status, raw).
     if status \<noteq> 200 then aret 1
     else abind (alift (fleet_of raw)) (\<lambda>nodes.
       if nodes = [] then aret 1
       else abind (amap (check_node W base) nodes) (\<lambda>vs. aret (conclusion vs))))"

definition HS_URL :: "files \<Rightarrow> string" where
  "HS_URL env = rstrip_char (CHR ''/'') (case env ''HS_URL'' of None \<Rightarrow> [] | Some v \<Rightarrow> v)"

definition HS_API_KEY :: "files \<Rightarrow> string" where
  "HS_API_KEY env = (case env ''HS_API_KEY'' of None \<Rightarrow> [] | Some v \<Rightarrow> v)"

definition preflight_main :: "'w world \<Rightarrow> files \<Rightarrow> (int, 'w) action" where
  "preflight_main W env =
     (if HS_URL env = [] then aret 1
      else abind (verify W (HS_URL env) (JStr DUMMY_KEY)) (\<lambda>(status, allow).
        if status \<noteq> 200 then aret 1
        else if allow \<noteq> Some False then aret 1
        else if HS_API_KEY env = [] then aret 1
        else check_fleet W (HS_URL env) (HS_API_KEY env)))"

subsection \<open>The conclusion\<close>

lemma verdict_cases: "is_passed v \<or> is_refused v \<or> is_unclear v"
  by (cases v) (simp_all add: is_passed_def is_refused_def is_unclear_def)

lemma is_passed_iff: "is_passed v \<longleftrightarrow> (\<not> is_refused v \<and> \<not> is_unclear v)"
  by (cases v) (simp_all add: is_passed_def is_refused_def is_unclear_def)

lemma conclusion_simps: "conclusion vs = (if vs \<noteq> [] \<and> list_all is_passed vs then 0 else 1)"
proof -
  have "vs \<noteq> [] \<and> list_all is_passed vs \<longleftrightarrow>
      filter is_passed vs \<noteq> [] \<and> filter is_refused vs = [] \<and> filter is_unclear vs = []"
    by (cases vs) (auto simp: list_all_iff filter_empty_conv is_passed_iff)
  then show ?thesis by (auto simp: conclusion_def Let_def)
qed

lemma is_passed_verdict: "is_passed (verdict_of name sa) \<longleftrightarrow> sa = (200, Some True)"
  by (cases sa) (auto simp: verdict_of_def is_passed_def)

subsection \<open>What is sent\<close>

text \<open>The only requests: the list of nodes, and the question whether a key would be let in.\<close>

inductive preflight_sends :: "string \<Rightarrow> string \<Rightarrow> request \<Rightarrow> bool" for base hs_key where
  ask: "preflight_sends base hs_key (verify_request base key)"
| list: "preflight_sends base hs_key (nodes_request base hs_key)"

lemma http_text_keeps: "frame W sent P \<Longrightarrow> sent rq \<Longrightarrow> keeps P (http_text W rq)"
  unfolding keeps_def http_text_def by (auto split: prod.split answer.split dest: keeps_server)

lemma verify_keeps:
  assumes "frame W sent P" and "sent (verify_request base key)"
  shows "keeps P (verify W base key)"
  unfolding verify_def by (auto intro!: keeps_abind http_text_keeps [OF assms] split: prod.split)

lemma check_node_keeps:
  assumes "frame W (preflight_sends base hs_key) P"
  shows "keeps P (check_node W base n)"
  unfolding check_node_def Let_def
  by (auto intro!: keeps_abind verify_keeps [OF assms preflight_sends.ask] split: json.split if_split)

lemma check_fleet_keeps:
  assumes "frame W (preflight_sends base hs_key) P"
  shows "keeps P (check_fleet W base hs_key)"
  unfolding check_fleet_def
  by (auto intro!: keeps_abind keeps_amap http_text_keeps [OF assms preflight_sends.list] check_node_keeps [OF assms]
      split: prod.split if_split)

lemma preflight_main_keeps:
  assumes "frame W (preflight_sends (HS_URL env) (HS_API_KEY env)) P"
  shows "keeps P (preflight_main W env)"
  unfolding preflight_main_def
  by (auto intro!: keeps_abind verify_keeps [OF assms preflight_sends.ask] check_fleet_keeps [OF assms]
      split: prod.split if_split)

interpretation pf: polite_script "preflight_sends (HS_URL env) (HS_API_KEY env)" "\<lambda>W. preflight_main W env" for env
  by unfold_locales (rule preflight_main_keeps)

text \<open>The check reads only: it lists the nodes and asks about keys, whatever is answered.\<close>

theorem preflight_reads_only:
  "list_all (preflight_sends (HS_URL env) (HS_API_KEY env)) (snd (snd (preflight_main (logged W) env (w, []))))"
  by (rule pf.sends_only)

subsection \<open>What success means\<close>

text \<open>Between \<open>w\<close> and \<open>w'\<close> the endpoint was asked about the key and answered 200 with the decision \<open>a\<close>;
  and the API answered 200 with the list of nodes.\<close>

definition decided :: "'w world \<Rightarrow> string \<Rightarrow> bool \<Rightarrow> 'w \<Rightarrow> 'w \<Rightarrow> json \<Rightarrow> bool" where
  "decided W base a w w' key =
     (\<exists>w1 raw w2. reaches W w w1 \<and> wd_server W (verify_request base key) w1 = (Answer 200 raw, w2)
        \<and> allow_of 200 raw = Inr (Some a) \<and> reaches W w2 w')"

definition listed :: "'w world \<Rightarrow> string \<Rightarrow> string \<Rightarrow> json list \<Rightarrow> 'w \<Rightarrow> 'w \<Rightarrow> bool" where
  "listed W base hs_key nodes w w' =
     (\<exists>w1 raw w2. reaches W w w1 \<and> wd_server W (nodes_request base hs_key) w1 = (Answer 200 raw, w2)
        \<and> fleet_of raw = Inr nodes \<and> reaches W w2 w')"

lemma decided_wider: "decided W base a w1 w2 key \<Longrightarrow> reaches W w w1 \<Longrightarrow> reaches W w2 w' \<Longrightarrow> decided W base a w w' key"
  unfolding decided_def by (meson reaches_trans)

lemma verify_decided:
  assumes "verify W base key w = (Inr (200, Some a), w')"
  shows "decided W base a w w' key"
proof -
  obtain raw where "wd_server W (verify_request base key) w = (Answer 200 raw, w')" "allow_of 200 raw = Inr (Some a)"
    using assms by (auto simp: verify_def abind_Inr http_text_def split: if_splits prod.splits answer.splits)
  then show ?thesis unfolding decided_def by (blast intro: reaches.here)
qed

lemma preflight_reaches:
  "verify W base key w = (r1, w1) \<Longrightarrow> reaches W w w1"
  "check_node W base n w = (r2, w2) \<Longrightarrow> reaches W w w2"
  "http_text W rq w = (r3, w3) \<Longrightarrow> reaches W w w3"
proof -
  note k = keeps_reaches [of W "\<lambda>_. True"] keeps_reaches [of W "preflight_sends base []"]
  show "verify W base key w = (r1, w1) \<Longrightarrow> reaches W w w1"
    using k(1) [of "verify W base key" w r1 w1] verify_keeps [of W "\<lambda>_. True"] by blast
  show "check_node W base n w = (r2, w2) \<Longrightarrow> reaches W w w2"
    using k(2) [of "check_node W base n" w r2 w2] check_node_keeps [of W base "[]"] by blast
  show "http_text W rq w = (r3, w3) \<Longrightarrow> reaches W w w3"
    using k(1) [of "http_text W rq" w r3 w3] http_text_keeps [of W "\<lambda>_. True"] by blast
qed

lemma check_node_passed:
  assumes "check_node W base n w = (Inr v, w')" and "is_passed v"
  shows "\<exists>d. n = JObj d \<and> truthy (dget d ''nodeKey'' (JStr [])) \<and> decided W base True w w' (dget d ''nodeKey'' (JStr []))"
proof -
  obtain d where n: "n = JObj d" using assms(1) by (cases n) (simp_all add: check_node_def)
  let ?key = "dget d ''nodeKey'' (JStr [])"
  have t: "truthy ?key"
    using assms unfolding n check_node_def json.case Let_def
    by (auto simp: abind_Inr is_passed_def split: if_splits)
  with assms obtain sa where "verify W base ?key w = (Inr sa, w')" "v = verdict_of (node_label d) sa"
    unfolding n check_node_def json.case Let_def by (auto simp: abind_Inr split: if_splits)
  with assms(2) verify_decided [of W base ?key w True w'] show ?thesis
    using n t by (simp add: is_passed_verdict)
qed

lemma check_fleet_passed:
  assumes "check_fleet W base hs_key w = (Inr 0, w')"
  shows "\<exists>nodes. nodes \<noteq> [] \<and> listed W base hs_key nodes w w'
    \<and> list_all (\<lambda>n. \<exists>d. n = JObj d \<and> truthy (dget d ''nodeKey'' (JStr []))
        \<and> decided W base True w w' (dget d ''nodeKey'' (JStr []))) nodes"
proof -
  from assms obtain raw w1 nodes vs where h: "http_text W (nodes_request base hs_key) w = (Inr (200, raw), w1)"
    and f: "fleet_of raw = Inr nodes" "nodes \<noteq> []"
    and m: "amap (check_node W base) nodes w1 = (Inr vs, w')" and c: "conclusion vs = 0"
    unfolding check_fleet_def by (auto simp: abind_Inr split: if_splits)
  have cr: "reaches W u (snd (check_node W base n u))" for n u
    by (rule preflight_reaches(2) [OF surjective_pairing])
  note am = amap_visits [OF cr m]
  have r1: "reaches W w w1" by (rule preflight_reaches(3) [OF h])
  from h have "wd_server W (nodes_request base hs_key) w = (Answer 200 raw, w1)"
    by (auto simp: http_text_def split: if_splits prod.splits answer.splits)
  with f(1) am(3) have l: "listed W base hs_key nodes w w'"
    unfolding listed_def by (blast intro: reaches.here)
  have all: "list_all2 (\<lambda>n v. \<exists>u1 u2. reaches W w1 u1 \<and> check_node W base n u1 = (Inr v, u2) \<and> reaches W u2 w') nodes vs"
    by (rule conjunct2 [OF amap_Inr [OF cr m]])
  have "\<exists>d. n = JObj d \<and> truthy (dget d ''nodeKey'' (JStr [])) \<and> decided W base True w w' (dget d ''nodeKey'' (JStr []))"
    if n: "n \<in> set nodes" for n
  proof -
    from list_all2_member1 [OF all n] obtain v u1 u2 where v: "v \<in> set vs" "reaches W w1 u1"
      "check_node W base n u1 = (Inr v, u2)" "reaches W u2 w'" by blast
    have "is_passed v" using c v(1) by (auto simp: conclusion_simps list_all_iff split: if_splits)
    from check_node_passed [OF v(3) this] obtain d where "n = JObj d" "truthy (dget d ''nodeKey'' (JStr []))"
      "decided W base True u1 u2 (dget d ''nodeKey'' (JStr []))" by blast
    with decided_wider [OF _ reaches_trans [OF v(2) r1] v(4)] show ?thesis by blast
  qed
  with f(2) l show ?thesis by (auto simp: list_all_iff)
qed

text \<open>C24: When the script says it is safe, then during that very run the endpoint refused the key of no node,
  the API listed a fleet that is not empty, and the endpoint let the key of every listed node in.\<close>

theorem preflight_sound:
  assumes "preflight_main W env w = (Inr 0, w')"
  shows "decided W (HS_URL env) False w w' (JStr DUMMY_KEY)
    \<and> (\<exists>nodes. nodes \<noteq> [] \<and> listed W (HS_URL env) (HS_API_KEY env) nodes w w'
        \<and> list_all (\<lambda>n. \<exists>d. n = JObj d \<and> truthy (dget d ''nodeKey'' (JStr []))
            \<and> decided W (HS_URL env) True w w' (dget d ''nodeKey'' (JStr []))) nodes)"
proof -
  from assms obtain w1 where v: "verify W (HS_URL env) (JStr DUMMY_KEY) w = (Inr (200, Some False), w1)"
    and f: "check_fleet W (HS_URL env) (HS_API_KEY env) w1 = (Inr 0, w')"
    unfolding preflight_main_def by (auto simp: abind_Inr split: if_splits)
  have r: "reaches W w w1" by (rule preflight_reaches(1) [OF v])
  from check_fleet_passed [OF f] obtain nodes where n: "nodes \<noteq> []"
    "listed W (HS_URL env) (HS_API_KEY env) nodes w1 w'"
    "list_all (\<lambda>n. \<exists>d. n = JObj d \<and> truthy (dget d ''nodeKey'' (JStr []))
       \<and> decided W (HS_URL env) True w1 w' (dget d ''nodeKey'' (JStr []))) nodes" by blast
  have t: "reaches W w1 w'"
    using keeps_reaches [of W "preflight_sends (HS_URL env) (HS_API_KEY env)"] check_fleet_keeps f by blast
  have "listed W (HS_URL env) (HS_API_KEY env) nodes w w'"
    using n(2) r unfolding listed_def by (meson reaches_trans)
  moreover have "list_all (\<lambda>n. \<exists>d. n = JObj d \<and> truthy (dget d ''nodeKey'' (JStr []))
       \<and> decided W (HS_URL env) True w w' (dget d ''nodeKey'' (JStr []))) nodes"
    by (rule list.pred_mono_strong [OF n(3)]) (blast intro: decided_wider r reaches.here)
  moreover have "decided W (HS_URL env) False w w' (JStr DUMMY_KEY)"
    by (rule decided_wider [OF verify_decided [OF v] reaches.here t])
  ultimately show ?thesis using n(1) by blast
qed

subsection \<open>The decision\<close>

text \<open>What Headscale documents: \<open>/verify\<close> answers every key by what the tailnet lets in, and the API
  lists the nodes.\<close>

definition admission :: "'w world \<Rightarrow> string \<Rightarrow> string \<Rightarrow> jobj list \<Rightarrow> (json \<Rightarrow> bool) \<Rightarrow> bool" where
  "admission W base hs_key nodes allowed =
     ((\<forall>w key. answers (wd_server W (verify_request base key) w)
         (\<lambda>c raw w'. c = 200 \<and> allow_of 200 raw = Inr (Some (allowed key))))
      \<and> (\<forall>w. answers (wd_server W (nodes_request base hs_key) w)
         (\<lambda>c raw w'. c = 200 \<and> fleet_of raw = Inr (map JObj nodes))))"

definition admitted :: "(json \<Rightarrow> bool) \<Rightarrow> jobj \<Rightarrow> bool" where
  "admitted allowed d = (truthy (dget d ''nodeKey'' (JStr [])) \<and> allowed (dget d ''nodeKey'' (JStr [])))"

lemma admission_verify:
  assumes "admission W base hs_key nodes allowed" and "has_scheme base"
  shows "\<exists>w'. verify W base key w = (Inr (200, Some (allowed key)), w')"
proof -
  have "answers (wd_server W (verify_request base key) w)
      (\<lambda>c raw w'. c = 200 \<and> allow_of 200 raw = Inr (Some (allowed key)))"
    using assms(1) by (simp add: admission_def)
  then obtain raw w' where "wd_server W (verify_request base key) w = (Answer 200 raw, w')"
    "allow_of 200 raw = Inr (Some (allowed key))" by (rule answers_E) auto
  with has_scheme_append [OF assms(2)] show ?thesis by (simp add: verify_def http_text_def verify_request_def)
qed

lemma admission_nodes:
  assumes "admission W base hs_key nodes allowed" and "has_scheme base"
  shows "\<exists>raw w'. http_text W (nodes_request base hs_key) w = (Inr (200, raw), w') \<and> fleet_of raw = Inr (map JObj nodes)"
proof -
  have "answers (wd_server W (nodes_request base hs_key) w)
      (\<lambda>c raw w'. c = 200 \<and> fleet_of raw = Inr (map JObj nodes))"
    using assms(1) by (simp add: admission_def)
  then obtain raw w' where "wd_server W (nodes_request base hs_key) w = (Answer 200 raw, w')"
    "fleet_of raw = Inr (map JObj nodes)" by (rule answers_E) auto
  with has_scheme_append [OF assms(2)] show ?thesis by (simp add: http_text_def nodes_request_def)
qed

lemma admission_check:
  assumes "admission W base hs_key nodes allowed" and "has_scheme base" and "printable_label (node_label d)"
  shows "\<exists>v w'. check_node W base (JObj d) w = (Inr v, w') \<and> is_passed v = admitted allowed d"
proof (cases "truthy (dget d ''nodeKey'' (JStr []))")
  case True
  obtain w' where "verify W base (dget d ''nodeKey'' (JStr [])) w
      = (Inr (200, Some (allowed (dget d ''nodeKey'' (JStr [])))), w')"
    using admission_verify [OF assms(1,2)] by blast
  with True assms(3) show ?thesis by (simp add: check_node_def is_passed_verdict admitted_def)
next
  case False
  with assms(3) show ?thesis by (simp add: check_node_def admitted_def is_passed_def)
qed

lemma admission_fleet:
  assumes "admission W base hs_key nodes allowed" and "has_scheme base"
    and "list_all (\<lambda>d. printable_label (node_label d)) ds"
  shows "\<exists>vs w'. amap (check_node W base) (map JObj ds) w = (Inr vs, w')
    \<and> length vs = length ds \<and> list_all is_passed vs = list_all (admitted allowed) ds"
  using assms(3)
proof (induction ds arbitrary: w)
  case (Cons d ds)
  from admission_check [OF assms(1,2), of d w] Cons.prems obtain v w1 where
    v: "check_node W base (JObj d) w = (Inr v, w1)" "is_passed v = admitted allowed d" by auto
  from Cons.IH [of w1] Cons.prems obtain vs w2 where
    "amap (check_node W base) (map JObj ds) w1 = (Inr vs, w2)" "length vs = length ds"
    "list_all is_passed vs = list_all (admitted allowed) ds" by auto
  with v show ?case by simp
qed simp

text \<open>C25: Against a Headscale that behaves as documented the script comes to a decision, and it is yes exactly
  when the key of no node is kept out, the fleet is not empty and every node of it has a key that is let
  in.\<close>

theorem preflight_decides:
  assumes "admission W (HS_URL env) (HS_API_KEY env) nodes allowed"
    and "has_scheme (HS_URL env)" and "HS_API_KEY env \<noteq> []"
    and "list_all (\<lambda>d. printable_label (node_label d)) nodes"
  shows "fst (preflight_main W env w) =
    Inr (if \<not> allowed (JStr DUMMY_KEY) \<and> nodes \<noteq> [] \<and> list_all (admitted allowed) nodes then 0 else 1)"
proof -
  have u: "HS_URL env \<noteq> []" using assms(2) by (auto simp: has_scheme_def strip_def lstrip_def rstrip_def)
  obtain w1 where v: "verify W (HS_URL env) (JStr DUMMY_KEY) w = (Inr (200, Some (allowed (JStr DUMMY_KEY))), w1)"
    using admission_verify [OF assms(1,2)] by blast
  obtain raw w2 where h: "http_text W (nodes_request (HS_URL env) (HS_API_KEY env)) w1 = (Inr (200, raw), w2)"
    "fleet_of raw = Inr (map JObj nodes)" using admission_nodes [OF assms(1,2)] by blast
  obtain vs w3 where m: "amap (check_node W (HS_URL env)) (map JObj nodes) w2 = (Inr vs, w3)"
    "length vs = length nodes" "list_all is_passed vs = list_all (admitted allowed) nodes"
    using admission_fleet [OF assms(1,2,4)] by blast
  have "fst (check_fleet W (HS_URL env) (HS_API_KEY env) w1)
      = Inr (if nodes \<noteq> [] \<and> list_all (admitted allowed) nodes then 0 else 1)"
  proof (cases "nodes = []")
    case True
    with h show ?thesis by (simp add: check_fleet_def)
  next
    case False
    with m(2) have "vs \<noteq> []" by auto
    with False h m show ?thesis by (simp add: check_fleet_def conclusion_simps)
  qed
  with u v assms(3) show ?thesis by (simp add: preflight_main_def)
qed

subsection \<open>A run\<close>

definition small_fleet :: "jobj list" where
  "small_fleet = [[(''givenName'', JStr ''vpn3''), (''nodeKey'', JStr ''nodekey:ab'')]]"

definition in_fleet :: "json \<Rightarrow> bool" where
  "in_fleet key = (key = JStr ''nodekey:ab'')"

definition small_headscale :: "unit world" where
  "small_headscale =
     \<lparr>wd_server = \<lambda>rq w.
        (if ht_method rq = ''GET''
         then Answer 200 ''{\"nodes\": [{\"givenName\": \"vpn3\", \"nodeKey\": \"nodekey:ab\"}]}''
         else if ht_body rq = JsonBody (JObj [(''NodePublic'', JStr ''nodekey:ab''), (''Source'', JStr ''203.0.113.1'')])
         then Answer 200 ''{\"Allow\": true}'' else Answer 200 ''{\"Allow\": false}'', w),
      wd_time = \<lambda>_. 0, wd_sleep = \<lambda>_ w. w\<rparr>"

definition small_env :: files where
  "small_env = (\<lambda>_. None)(''HS_URL'' := Some ''https://vpn2/'', ''HS_API_KEY'' := Some ''k'')"

lemma small_env_facts: "HS_URL small_env = ''https://vpn2''" "HS_API_KEY small_env = ''k''" "has_scheme ''https://vpn2''"
  by code_simp+

lemma small_bodies:
  "fleet_of ''{\"nodes\": [{\"givenName\": \"vpn3\", \"nodeKey\": \"nodekey:ab\"}]}'' = Inr (map JObj small_fleet)"
  "allow_of 200 ''{\"Allow\": true}'' = Inr (Some True)"
  "allow_of 200 ''{\"Allow\": false}'' = Inr (Some False)"
  by code_simp+

lemma small_admission: "admission small_headscale ''https://vpn2'' ''k'' small_fleet in_fleet"
  by (auto simp: admission_def answers_def small_headscale_def verify_request_def nodes_request_def small_bodies in_fleet_def)

lemma small_run: "fst (preflight_main small_headscale small_env ()) = Inr 0"
  by code_simp

theorem preflight_decides_witness: "fst (preflight_main small_headscale small_env ()) = Inr 0"
proof -
  have "list_all (\<lambda>d. printable_label (node_label d)) small_fleet" by code_simp
  moreover have "\<not> in_fleet (JStr DUMMY_KEY)" "small_fleet \<noteq> []" "list_all (admitted in_fleet) small_fleet" by code_simp+
  ultimately show ?thesis
    using preflight_decides [of small_headscale small_env small_fleet in_fleet "()"] small_admission
    by (simp add: small_env_facts)
qed

theorem preflight_sound_witness:
  "decided small_headscale ''https://vpn2'' False () () (JStr DUMMY_KEY)"
  using preflight_sound [of small_headscale small_env "()" "()"] small_run
  by (simp add: small_env_facts prod_eq_iff)

end
