(* ===== verification/Bootstrap.thy ===== *)
theory Bootstrap
  imports ClientKeys Http
begin

text \<open>
  The first set-up of Beszel over the API of its PocketBase, \<open>beszel/bootstrap.py\<close>: \<open>req\<close> and \<open>main\<close>.
  What is printed is not modelled. \<open>urlopen\<close> without an answer raises \<open>URLError\<close>, which \<open>req\<close> does not
  catch; an answer in another encoding than UTF-8, and a token that is not a string, are outside the
  model.
\<close>

subsection \<open>Requests\<close>

definition BASE :: string where
  "BASE = ''http://127.0.0.1:8090/api/collections''"

definition EMAIL :: string where
  "EMAIL = ''admin@hangocthanh.io.vn''"

definition req :: "'w world \<Rightarrow> string \<Rightarrow> string \<Rightarrow> body \<Rightarrow> string \<Rightarrow> (json, 'w) action" where
  "req W method path data token w =
     (case wd_server W \<lparr>ht_method = method, ht_url = BASE @ path, ht_token = token, ht_body = data\<rparr> w of
        (NoAnswer, w') \<Rightarrow> (Inl URLError, w')
      | (Answer c raw, w') \<Rightarrow>
          (if 200 \<le> c \<and> c < 300 then loads_any raw
           else rbind (utf8_decode raw) (\<lambda>t. Inr (JObj [(''_err'', JStr t)])), w'))"

text \<open>\<open>urllib.parse.quote\<close>.\<close>

definition upper_hex :: "nat \<Rightarrow> char" where
  "upper_hex n = (if n < 10 then char_of (48 + n) else char_of (55 + n))"

definition unreserved :: "char \<Rightarrow> bool" where
  "unreserved c =
     (let n = code c in is_digit c \<or> (65 \<le> n \<and> n \<le> 90) \<or> (97 \<le> n \<and> n \<le> 122) \<or> c \<in> set ''_.-~/'')"

definition url_quote :: "string \<Rightarrow> string" where
  "url_quote s =
     concat (map (\<lambda>c. if unreserved c then [c]
       else [CHR ''%'', upper_hex (code c div 16), upper_hex (code c mod 16)]) (utf8_encode s))"

subsection \<open>main\<close>

definition auth_body :: "string \<Rightarrow> body" where
  "auth_body PASS = JsonBody (JObj [(''identity'', JStr EMAIL), (''password'', JStr PASS)])"

definition users_path :: string where
  "users_path = ''/users/records?filter='' @ url_quote (''email='' @ [CHR 0x27] @ EMAIL @ [CHR 0x27])"

definition user_body :: "string \<Rightarrow> body" where
  "user_body PASS = JsonBody (JObj [(''email'', JStr EMAIL), (''password'', JStr PASS), (''passwordConfirm'', JStr PASS),
     (''role'', JStr ''admin''), (''verified'', JBool True)])"

definition get_token :: "'w world \<Rightarrow> string \<Rightarrow> (string, 'w) action" where
  "get_token W PASS =
     abind (req W ''POST'' ''/_superusers/auth-with-password'' (auth_body PASS) []) (\<lambda>auth.
     abind (alift (jget auth ''token'' JNull)) (\<lambda>token.
     if \<not> truthy token then araise (SystemExitMsg (''superuser auth fail: '' @ py_str auth))
     else alift (as_str token)))"

text \<open>\<open>users["items"][0]["id"]\<close> for a true value of \<open>items\<close>.\<close>

definition item_id :: "json \<Rightarrow> json res" where
  "item_id items =
     (case items of
        JArr (u # us) \<Rightarrow> json_index u ''id''
      | JObj d \<Rightarrow> Inl KeyError
      | _ \<Rightarrow> Inl TypeError)"

definition admin_id :: "'w world \<Rightarrow> string \<Rightarrow> string \<Rightarrow> (json, 'w) action" where
  "admin_id W PASS token =
     abind (req W ''GET'' users_path NoBody token) (\<lambda>users.
     abind (alift (jget users ''items'' JNull)) (\<lambda>items.
     if truthy items then alift (item_id items)
     else
       abind (req W ''POST'' ''/users/records'' (user_body PASS) token) (\<lambda>u.
       abind (alift (jget u ''id'' JNull)) (\<lambda>uid.
       if \<not> truthy uid then araise (SystemExitMsg (''tao user fail: '' @ py_str u)) else aret uid))))"

text \<open>The set \<open>{s["name"] for s in items}\<close>, as the list of its names; a list or an object cannot be in a set.\<close>

definition hashable :: "json \<Rightarrow> json res" where
  "hashable x = (case x of JArr _ \<Rightarrow> Inl TypeError | JObj _ \<Rightarrow> Inl TypeError | _ \<Rightarrow> Inr x)"

definition names_of :: "json \<Rightarrow> json list res" where
  "names_of items =
     (case items of
        JArr xs \<Rightarrow> rmap (\<lambda>s. rbind (json_index s ''name'') hashable) xs
      | JObj d \<Rightarrow> (if d = [] then Inr [] else Inl TypeError)
      | JStr s \<Rightarrow> (if s = [] then Inr [] else Inl TypeError)
      | _ \<Rightarrow> Inl TypeError)"

definition SYSTEMS :: "(string \<times> string) list" where
  "SYSTEMS = [(''vpn6'', ''host.docker.internal''), (''vpn4'', ''149.104.66.174'')]"

definition system_body :: "json \<Rightarrow> string \<times> string \<Rightarrow> body" where
  "system_body uid nh =
     JsonBody (JObj [(''name'', JStr (fst nh)), (''host'', JStr (snd nh)), (''port'', JStr ''45876''),
       (''users'', JArr [uid]), (''status'', JStr ''pending'')])"

definition add_system :: "'w world \<Rightarrow> string \<Rightarrow> json \<Rightarrow> json list \<Rightarrow> string \<times> string \<Rightarrow> (unit, 'w) action" where
  "add_system W token uid have nh =
     (if JStr (fst nh) \<in> set have then aret ()
      else
        abind (req W ''POST'' ''/systems/records'' (system_body uid nh) token) (\<lambda>s.
        abind (alift (jget s ''id'' JNull)) (\<lambda>i.
        if \<not> truthy i then aret ()
        else case i of JStr _ \<Rightarrow> aret () | _ \<Rightarrow> araise TypeError)))"

definition add_systems :: "'w world \<Rightarrow> string \<Rightarrow> json \<Rightarrow> (unit, 'w) action" where
  "add_systems W token uid =
     abind (req W ''GET'' ''/systems/records?perPage=100'' NoBody token) (\<lambda>r.
     abind (alift (rbind (jget r ''items'' (JArr [])) names_of)) (\<lambda>have.
     abind (amap (add_system W token uid have) SYSTEMS) (\<lambda>_. aret ())))"

definition bootstrap_main :: "'w world \<Rightarrow> files \<Rightarrow> (unit, 'w) action" where
  "bootstrap_main W env =
     (case env ''BESZEL_PASS'' of
        None \<Rightarrow> araise KeyError
      | Some PASS \<Rightarrow>
          abind (get_token W PASS) (\<lambda>token.
          abind (admin_id W PASS token) (\<lambda>uid.
          add_systems W token uid)))"

lemma users_path_text: "users_path = ''/users/records?filter=email%3D%27admin%40hangocthanh.io.vn%27''"
  by code_simp

subsection \<open>What is sent\<close>

text \<open>Signing in, reading, and the creation of the administrator and of a system of the list; nothing that
  changes or deletes a record.\<close>

inductive bootstrap_sends :: "string \<Rightarrow> request \<Rightarrow> bool" for PASS where
  sign_in: "bootstrap_sends PASS \<lparr>ht_method = ''POST'', ht_url = BASE @ ''/_superusers/auth-with-password'',
    ht_token = [], ht_body = auth_body PASS\<rparr>"
| read: "bootstrap_sends PASS \<lparr>ht_method = ''GET'', ht_url = url, ht_token = token, ht_body = NoBody\<rparr>"
| user: "bootstrap_sends PASS \<lparr>ht_method = ''POST'', ht_url = BASE @ ''/users/records'', ht_token = token,
    ht_body = user_body PASS\<rparr>"
| system: "nh \<in> set SYSTEMS \<Longrightarrow> bootstrap_sends PASS \<lparr>ht_method = ''POST'', ht_url = BASE @ ''/systems/records'',
    ht_token = token, ht_body = system_body uid nh\<rparr>"

lemma req_keeps:
  assumes "frame W sent P"
    and "sent \<lparr>ht_method = method, ht_url = BASE @ path, ht_token = token, ht_body = data\<rparr>"
  shows "keeps P (req W method path data token)"
  unfolding keeps_def req_def by (auto split: prod.split answer.split dest: keeps_server [OF assms])

lemma bootstrap_main_keeps:
  assumes f: "frame W (case env ''BESZEL_PASS'' of None \<Rightarrow> (\<lambda>_. False) | Some PASS \<Rightarrow> bootstrap_sends PASS) P"
  shows "keeps P (bootstrap_main W env)"
proof (cases "env ''BESZEL_PASS''")
  case (Some PASS)
  with f have f: "frame W (bootstrap_sends PASS) P" by simp
  have "keeps P (get_token W PASS)"
    unfolding get_token_def
    by (auto intro!: keeps_abind req_keeps [OF f] bootstrap_sends.intros split: if_split)
  moreover have "keeps P (admin_id W PASS token)" for token
    unfolding admin_id_def
    by (auto intro!: keeps_abind req_keeps [OF f] bootstrap_sends.intros split: if_split)
  moreover have "keeps P (add_system W token uid have nh)" if "nh \<in> set SYSTEMS" for token uid "have" nh
    unfolding add_system_def using that
    by (auto intro!: keeps_abind req_keeps [OF f] bootstrap_sends.intros split: if_split json.split)
  then have "keeps P (add_systems W token uid)" for token uid
    unfolding add_systems_def
    by (auto intro!: keeps_abind keeps_amap req_keeps [OF f] bootstrap_sends.intros)
  ultimately show ?thesis using Some by (auto simp: bootstrap_main_def intro!: keeps_abind)
qed (simp add: bootstrap_main_def)

interpretation bs: polite_script
  "case env ''BESZEL_PASS'' of None \<Rightarrow> (\<lambda>_. False) | Some PASS \<Rightarrow> bootstrap_sends PASS"
  "\<lambda>W. bootstrap_main W env" for env
  by unfold_locales (rule bootstrap_main_keeps)

text \<open>Whatever PocketBase answers, the script changes and deletes no record.\<close>

theorem bootstrap_only_creates:
  assumes "env ''BESZEL_PASS'' = Some PASS"
  shows "list_all (bootstrap_sends PASS) (snd (snd (bootstrap_main (logged W) env (w, []))))"
  using bs.sends_only [of env W w] assms by simp

subsection \<open>The API as documented\<close>

text \<open>PocketBase as its documentation says, over the ids of the users with the filtered email and the names
  of the systems: signing in gives a token, a list gives its first page, a creation of what is not there yet appends
  one record and gives its id, and reading changes nothing.\<close>

definition call_of :: "'w world \<Rightarrow> string \<Rightarrow> string \<Rightarrow> body \<Rightarrow> string \<Rightarrow> 'w \<Rightarrow> answer \<times> 'w" where
  "call_of W method path data token w =
     wd_server W \<lparr>ht_method = method, ht_url = BASE @ path, ht_token = token, ht_body = data\<rparr> w"

definition page :: "string \<Rightarrow> nat \<Rightarrow> string list \<Rightarrow> json list \<Rightarrow> bool" where
  "page field n vs items = list_all2 (\<lambda>i v. json_index i field = Inr (JStr v)) items (take n vs)"

definition pocketbase ::
  "'w world \<Rightarrow> string \<Rightarrow> string \<Rightarrow> ('w \<Rightarrow> string list) \<Rightarrow> ('w \<Rightarrow> string list) \<Rightarrow> bool" where
  "pocketbase W PASS token users systems =
     (token \<noteq> []
      \<and> (\<forall>w. answers (call_of W ''POST'' ''/_superusers/auth-with-password'' (auth_body PASS) [] w) (\<lambda>c raw w'.
           200 \<le> c \<and> c < 300 \<and> rbind (loads_any raw) (\<lambda>j. jget j ''token'' JNull) = Inr (JStr token)
           \<and> users w' = users w \<and> systems w' = systems w))
      \<and> (\<forall>w. answers (call_of W ''GET'' users_path NoBody token w) (\<lambda>c raw w'.
           200 \<le> c \<and> c < 300
           \<and> (\<exists>items. rbind (loads_any raw) (\<lambda>j. jget j ''items'' JNull) = Inr (JArr items) \<and> page ''id'' 30 (users w) items)
           \<and> users w' = users w \<and> systems w' = systems w))
      \<and> (\<forall>w. users w = [] \<longrightarrow> answers (call_of W ''POST'' ''/users/records'' (user_body PASS) token w) (\<lambda>c raw w'.
           200 \<le> c \<and> c < 300
           \<and> (\<exists>i. i \<noteq> [] \<and> rbind (loads_any raw) (\<lambda>j. jget j ''id'' JNull) = Inr (JStr i) \<and> users w' = [i])
           \<and> systems w' = systems w))
      \<and> (\<forall>w. answers (call_of W ''GET'' ''/systems/records?perPage=100'' NoBody token w) (\<lambda>c raw w'.
           200 \<le> c \<and> c < 300
           \<and> (\<exists>items. rbind (loads_any raw) (\<lambda>j. jget j ''items'' (JArr [])) = Inr (JArr items)
                \<and> page ''name'' 100 (systems w) items)
           \<and> users w' = users w \<and> systems w' = systems w))
      \<and> (\<forall>w uid. list_all (\<lambda>nh. fst nh \<notin> set (systems w) \<longrightarrow> answers (call_of W ''POST'' ''/systems/records'' (system_body uid nh) token w) (\<lambda>c raw w'.
           200 \<le> c \<and> c < 300
           \<and> (\<exists>i. i \<noteq> [] \<and> rbind (loads_any raw) (\<lambda>j. jget j ''id'' JNull) = Inr (JStr i))
           \<and> users w' = users w \<and> systems w' = systems w @ [fst nh])) SYSTEMS))"

lemma req_answer:
  assumes "answers (call_of W method path data token w) Q"
    and "\<And>c raw w'. Q c raw w' \<Longrightarrow> 200 \<le> c \<and> c < 300"
  obtains c raw w' where "req W method path data token w = (loads_any raw, w')" "Q c raw w'"
  using assms(1)
proof (rule answers_E)
  fix c raw w'
  assume "call_of W method path data token w = (Answer c raw, w')" "Q c raw w'"
  with assms(2) [of c raw w'] that show thesis by (simp add: req_def call_of_def)
qed

lemma req_field:
  assumes "req W method path data token w = (r, w')" and "rbind r (\<lambda>j. jget j k v) = Inr x"
  shows "abind (req W method path data token) (\<lambda>j. abind (alift (jget j k v)) f) w = f x w'"
  using assms by (auto simp: res_simps)

lemma page_names: "page ''name'' n vs items \<Longrightarrow> names_of (JArr items) = Inr (map JStr (take n vs))"
  unfolding page_def names_of_def by (auto simp: rmap_Inr_iff hashable_def list_all2_map2 elim: list_all2_mono)

lemma token_got:
  assumes api: "pocketbase W PASS token users systems"
  shows "\<exists>w'. get_token W PASS w = (Inr token, w') \<and> users w' = users w \<and> systems w' = systems w"
proof -
  have t: "token \<noteq> []" using api by (simp add: pocketbase_def)
  have "answers (call_of W ''POST'' ''/_superusers/auth-with-password'' (auth_body PASS) [] w) (\<lambda>c raw w'.
      200 \<le> c \<and> c < 300 \<and> rbind (loads_any raw) (\<lambda>j. jget j ''token'' JNull) = Inr (JStr token)
      \<and> users w' = users w \<and> systems w' = systems w)"
    using api by (simp add: pocketbase_def)
  from req_answer [OF this] obtain raw w' where
    r: "req W ''POST'' ''/_superusers/auth-with-password'' (auth_body PASS) [] w = (loads_any raw, w')"
      "rbind (loads_any raw) (\<lambda>j. jget j ''token'' JNull) = Inr (JStr token)"
      "users w' = users w" "systems w' = systems w" by blast
  from r(2) obtain j where "loads_any raw = Inr j" "jget j ''token'' JNull = Inr (JStr token)" by (auto simp: res_simps)
  with r t show ?thesis by (simp add: get_token_def)
qed

lemma admin_got:
  assumes api: "pocketbase W PASS token users systems"
  shows "\<exists>i w'. admin_id W PASS token w = (Inr (JStr i), w') \<and> systems w' = systems w
    \<and> users w' = (if users w = [] then [i] else users w)"
proof -
  have "answers (call_of W ''GET'' users_path NoBody token w) (\<lambda>c raw w'.
      200 \<le> c \<and> c < 300
      \<and> (\<exists>items. rbind (loads_any raw) (\<lambda>j. jget j ''items'' JNull) = Inr (JArr items) \<and> page ''id'' 30 (users w) items)
      \<and> users w' = users w \<and> systems w' = systems w)"
    using api by (simp add: pocketbase_def)
  from req_answer [OF this] obtain raw w1 items where
    r: "req W ''GET'' users_path NoBody token w = (loads_any raw, w1)"
      "rbind (loads_any raw) (\<lambda>j. jget j ''items'' JNull) = Inr (JArr items)"
    and u: "page ''id'' 30 (users w) items" "users w1 = users w" "systems w1 = systems w" by blast
  note step = req_field [OF r]
  show ?thesis
  proof (cases "users w")
    case Nil
    with u(1) have i: "items = []" by (simp add: page_def)
    have "answers (call_of W ''POST'' ''/users/records'' (user_body PASS) token w1) (\<lambda>c raw w'.
        200 \<le> c \<and> c < 300
        \<and> (\<exists>i. i \<noteq> [] \<and> rbind (loads_any raw) (\<lambda>j. jget j ''id'' JNull) = Inr (JStr i) \<and> users w' = [i])
        \<and> systems w' = systems w1)"
      using api Nil u(2) by (simp add: pocketbase_def)
    from req_answer [OF this] obtain raw' w2 j where
      p: "req W ''POST'' ''/users/records'' (user_body PASS) token w1 = (loads_any raw', w2)"
        "rbind (loads_any raw') (\<lambda>j. jget j ''id'' JNull) = Inr (JStr j)"
      and j: "j \<noteq> []" "users w2 = [j]" "systems w2 = systems w1" by blast
    from p(2) obtain o' where "loads_any raw' = Inr o'" "jget o' ''id'' JNull = Inr (JStr j)" by (auto simp: res_simps)
    with p(1) j Nil i u show ?thesis by (simp add: admin_id_def step)
  next
    case (Cons v vs)
    with u(1) obtain i us where i: "items = i # us" "json_index i ''id'' = Inr (JStr v)"
      by (auto simp: page_def list_all2_Cons2)
    with Cons u(2,3) show ?thesis by (simp add: admin_id_def step item_id_def)
  qed
qed

lemma system_added:
  assumes api: "pocketbase W PASS token users systems"
    and n: "nh \<in> set SYSTEMS" and new: "JStr (fst nh) \<notin> set have \<Longrightarrow> fst nh \<notin> set (systems w)"
  shows "\<exists>w'. add_system W token uid have nh w = (Inr (), w') \<and> users w' = users w
    \<and> systems w' = (if JStr (fst nh) \<in> set have then systems w else systems w @ [fst nh])"
proof (cases "JStr (fst nh) \<in> set have")
  case False
  have "answers (call_of W ''POST'' ''/systems/records'' (system_body uid nh) token w) (\<lambda>c raw w'.
      200 \<le> c \<and> c < 300
      \<and> (\<exists>i. i \<noteq> [] \<and> rbind (loads_any raw) (\<lambda>j. jget j ''id'' JNull) = Inr (JStr i))
      \<and> users w' = users w \<and> systems w' = systems w @ [fst nh])"
    using api n new [OF False] unfolding pocketbase_def list_all_iff by blast
  from req_answer [OF this] obtain raw w' i where
    p: "req W ''POST'' ''/systems/records'' (system_body uid nh) token w = (loads_any raw, w')"
      "rbind (loads_any raw) (\<lambda>j. jget j ''id'' JNull) = Inr (JStr i)"
    and "i \<noteq> []" "users w' = users w" "systems w' = systems w @ [fst nh]" by blast
  with False show ?thesis by (simp add: add_system_def req_field [OF p])
qed (simp add: add_system_def)

lemma systems_added:
  assumes api: "pocketbase W PASS token users systems"
    and "set nhs \<subseteq> set SYSTEMS" and "distinct (map fst nhs)"
    and "\<And>n. n \<in> fst ` set nhs \<Longrightarrow> JStr n \<notin> set have \<Longrightarrow> n \<notin> set (systems w)"
  shows "\<exists>rs w'. amap (add_system W token uid have) nhs w = (Inr rs, w') \<and> users w' = users w
    \<and> systems w' = systems w @ filter (\<lambda>n. JStr n \<notin> set have) (map fst nhs)"
  using assms(2-4)
proof (induction nhs arbitrary: w)
  case (Cons nh nhs)
  from Cons.prems(1) have "nh \<in> set SYSTEMS" by simp
  have "JStr (fst nh) \<notin> set have \<Longrightarrow> fst nh \<notin> set (systems w)" by (rule Cons.prems(3)) simp_all
  from system_added [OF api \<open>nh \<in> set SYSTEMS\<close> this, of "have" uid] obtain w1 where
    a: "add_system W token uid have nh w = (Inr (), w1)" "users w1 = users w"
      "systems w1 = (if JStr (fst nh) \<in> set have then systems w else systems w @ [fst nh])" by blast
  have "n \<notin> set (systems w1)" if "n \<in> fst ` set nhs" "JStr n \<notin> set have" for n
  proof -
    have "n \<noteq> fst nh" using that(1) Cons.prems(2) by (metis distinct.simps(2) list.set_map list.simps(9))
    with that a(3) Cons.prems(3) [of n] show ?thesis by (auto split: if_splits)
  qed
  with Cons.IH [of w1] Cons.prems(1,2) obtain rs w2 where
    "amap (add_system W token uid have) nhs w1 = (Inr rs, w2)" "users w2 = users w1"
    "systems w2 = systems w1 @ filter (\<lambda>n. JStr n \<notin> set have) (map fst nhs)" by auto
  with a show ?case by auto
qed simp

lemma bootstrap_once:
  assumes api: "pocketbase W PASS token users systems"
    and env: "env ''BESZEL_PASS'' = Some PASS" and "length (systems w) \<le> 100"
  shows "\<exists>i w'. bootstrap_main W env w = (Inr (), w') \<and> users w' = (if users w = [] then [i] else users w)
    \<and> systems w' = add_all_new (map fst SYSTEMS) (systems w)"
proof -
  from token_got [OF api, of w] obtain w1 where t: "get_token W PASS w = (Inr token, w1)"
    "users w1 = users w" "systems w1 = systems w" by blast
  from admin_got [OF api, of w1] obtain i w2 where a: "admin_id W PASS token w1 = (Inr (JStr i), w2)"
    "systems w2 = systems w" "users w2 = (if users w = [] then [i] else users w)" using t by auto
  have "answers (call_of W ''GET'' ''/systems/records?perPage=100'' NoBody token w2) (\<lambda>c raw w'.
      200 \<le> c \<and> c < 300
      \<and> (\<exists>items. rbind (loads_any raw) (\<lambda>j. jget j ''items'' (JArr [])) = Inr (JArr items)
           \<and> page ''name'' 100 (systems w2) items)
      \<and> users w' = users w2 \<and> systems w' = systems w2)"
    using api by (simp add: pocketbase_def)
  from req_answer [OF this] obtain raw w3 items where
    g: "req W ''GET'' ''/systems/records?perPage=100'' NoBody token w2 = (loads_any raw, w3)"
      "rbind (loads_any raw) (\<lambda>j. jget j ''items'' (JArr [])) = Inr (JArr items)"
    and s: "page ''name'' 100 (systems w2) items" "users w3 = users w2" "systems w3 = systems w2" by blast
  let ?have = "map JStr (systems w)"
  have n: "names_of (JArr items) = Inr ?have" using page_names [OF s(1)] a(2) assms(3) by simp
  obtain j where j: "loads_any raw = Inr j" "jget j ''items'' (JArr []) = Inr (JArr items)"
    using g(2) by (auto simp: res_simps)
  have "distinct (map fst SYSTEMS)" by (simp add: SYSTEMS_def)
  have fresh: "n \<notin> set (systems w3)" if "JStr n \<notin> set ?have" for n using that s(3) a(2) by auto
  from systems_added [OF api subset_refl \<open>distinct (map fst SYSTEMS)\<close> fresh, of ?have "JStr i"] obtain rs w4 where
    m: "amap (add_system W token (JStr i) ?have) SYSTEMS w3 = (Inr rs, w4)" "users w4 = users w3"
      "systems w4 = systems w3 @ filter (\<lambda>n. JStr n \<notin> set ?have) (map fst SYSTEMS)" by blast
  have "add_systems W token (JStr i) w2 = (Inr (), w4)"
    using g(1) j n m(1) by (simp add: add_systems_def)
  with env t(1) a(1) have "bootstrap_main W env w = (Inr (), w4)" by (simp add: bootstrap_main_def)
  moreover have "systems w4 = add_all_new (map fst SYSTEMS) (systems w)"
  proof -
    have "filter (\<lambda>n. JStr n \<notin> set ?have) (map fst SYSTEMS) = filter (\<lambda>n. n \<notin> set (systems w)) (map fst SYSTEMS)"
      by (rule filter_cong) auto
    with m(3) s(3) a(2) show ?thesis by (simp add: SYSTEMS_def add_new_def)
  qed
  ultimately show ?thesis using m(2) s(2) a(3) by auto
qed


subsection \<open>A run\<close>

text \<open>A PocketBase whose world says whether the user and each system exist, and which system came first.\<close>

type_synonym small = "bool \<times> bool \<times> bool \<times> bool"

fun small_users :: "small \<Rightarrow> string list" where
  "small_users (u, a, b, f) = (if u then [''u1''] else [])"

fun small_systems :: "small \<Rightarrow> string list" where
  "small_systems (u, a, b, f) =
     (if a \<and> b then (if f then [''vpn6'', ''vpn4''] else [''vpn4'', ''vpn6''])
      else if a then [''vpn6''] else if b then [''vpn4''] else [])"

definition small_item :: "string \<Rightarrow> string \<Rightarrow> string" where
  "small_item field v = ''{\"'' @ field @ ''\": \"'' @ v @ ''\"}''"

definition small_list :: "string \<Rightarrow> string list \<Rightarrow> string" where
  "small_list field vs = ''{\"items\": ['' @ join '', '' (map (small_item field) vs) @ '']}''"

definition small_base :: "small world" where
  "small_base =
     \<lparr>wd_server = \<lambda>rq (u, a, b, f).
        (if ht_method rq = ''GET'' then
           (Answer 200 (if ht_url rq = BASE @ users_path then small_list ''id'' (small_users (u, a, b, f))
              else small_list ''name'' (small_systems (u, a, b, f))), (u, a, b, f))
         else if ht_url rq = BASE @ ''/_superusers/auth-with-password''
         then (Answer 200 (small_item ''token'' ''t''), (u, a, b, f))
         else if ht_url rq = BASE @ ''/users/records'' then (Answer 200 (small_item ''id'' ''u1''), (True, a, b, f))
         else case ht_body rq of
           JsonBody (JObj ((k, v) # d)) \<Rightarrow>
             (Answer 200 (small_item ''id'' ''s1''),
              if v = JStr ''vpn6'' then (u, True, b, False) else (u, a, True, True))
         | _ \<Rightarrow> (Answer 400 [], (u, a, b, f))),
      wd_time = \<lambda>_. 0, wd_sleep = \<lambda>_ w. w\<rparr>"

lemma small_replies:
  "rbind (loads_any (small_item ''token'' ''t'')) (\<lambda>j. jget j ''token'' JNull) = Inr (JStr ''t'')"
  "rbind (loads_any (small_item ''id'' ''u1'')) (\<lambda>j. jget j ''id'' JNull) = Inr (JStr ''u1'')"
  "rbind (loads_any (small_item ''id'' ''s1'')) (\<lambda>j. jget j ''id'' JNull) = Inr (JStr ''s1'')"
  by code_simp+

definition small_objects :: "string \<Rightarrow> string list \<Rightarrow> json list" where
  "small_objects field vs = map (\<lambda>v. JObj [(field, JStr v)]) vs"

lemma small_texts:
  "loads_any (small_list ''id'' []) = Inr (JObj [(''items'', JArr (small_objects ''id'' []))])"
  "loads_any (small_list ''id'' [''u1'']) = Inr (JObj [(''items'', JArr (small_objects ''id'' [''u1'']))])"
  "loads_any (small_list ''name'' []) = Inr (JObj [(''items'', JArr (small_objects ''name'' []))])"
  "loads_any (small_list ''name'' [''vpn6'']) = Inr (JObj [(''items'', JArr (small_objects ''name'' [''vpn6'']))])"
  "loads_any (small_list ''name'' [''vpn4'']) = Inr (JObj [(''items'', JArr (small_objects ''name'' [''vpn4'']))])"
  "loads_any (small_list ''name'' [''vpn6'', ''vpn4'']) = Inr (JObj [(''items'', JArr (small_objects ''name'' [''vpn6'', ''vpn4'']))])"
  "loads_any (small_list ''name'' [''vpn4'', ''vpn6'']) = Inr (JObj [(''items'', JArr (small_objects ''name'' [''vpn4'', ''vpn6'']))])"
  by code_simp+

lemma small_page: "length vs \<le> n \<Longrightarrow> page field n vs (small_objects field vs)"
  by (simp add: page_def small_objects_def list_all2_conv_all_nth)

lemma small_reads:
  "loads_any (small_list ''id'' (small_users w)) = Inr (JObj [(''items'', JArr (small_objects ''id'' (small_users w)))])"
  "loads_any (small_list ''name'' (small_systems w)) = Inr (JObj [(''items'', JArr (small_objects ''name'' (small_systems w)))])"
  by (cases w; simp add: small_texts)+

lemma small_sizes: "length (small_users w) \<le> 30" "length (small_systems w) \<le> 100"
  by (cases w; simp)+

lemma small_paths:
  "BASE @ users_path \<noteq> BASE @ ''/systems/records?perPage=100''"
  "BASE @ ''/users/records'' \<noteq> BASE @ ''/_superusers/auth-with-password''"
  "BASE @ ''/systems/records'' \<notin> {BASE @ ''/_superusers/auth-with-password'', BASE @ ''/users/records''}"
  by code_simp+

lemma small_pocketbase: "pocketbase small_base ''pw'' ''t'' small_users small_systems"
  unfolding pocketbase_def
proof (intro conjI allI impI)
  fix w :: small
  obtain u a b f where w: "w = (u, a, b, f)" by (cases w)
  show "answers (call_of small_base ''POST'' ''/_superusers/auth-with-password'' (auth_body ''pw'') [] w) (\<lambda>c raw w'.
      200 \<le> c \<and> c < 300 \<and> rbind (loads_any raw) (\<lambda>j. jget j ''token'' JNull) = Inr (JStr ''t'')
      \<and> small_users w' = small_users w \<and> small_systems w' = small_systems w)"
    using small_replies by (simp add: w answers_def call_of_def small_base_def)
  show "answers (call_of small_base ''GET'' users_path NoBody ''t'' w) (\<lambda>c raw w'.
      200 \<le> c \<and> c < 300
      \<and> (\<exists>items. rbind (loads_any raw) (\<lambda>j. jget j ''items'' JNull) = Inr (JArr items) \<and> page ''id'' 30 (small_users w) items)
      \<and> small_users w' = small_users w \<and> small_systems w' = small_systems w)"
    using small_page [OF small_sizes(1), of "''id''" w] small_reads(1) [of w]
    by (auto simp: w answers_def call_of_def small_base_def jget_def dget_def)
  show "answers (call_of small_base ''GET'' ''/systems/records?perPage=100'' NoBody ''t'' w) (\<lambda>c raw w'.
      200 \<le> c \<and> c < 300
      \<and> (\<exists>items. rbind (loads_any raw) (\<lambda>j. jget j ''items'' (JArr [])) = Inr (JArr items)
           \<and> page ''name'' 100 (small_systems w) items)
      \<and> small_users w' = small_users w \<and> small_systems w' = small_systems w)"
    using small_page [OF small_sizes(2), of "''name''" w] small_reads(2) [of w] small_paths(1)
    by (auto simp: w answers_def call_of_def small_base_def jget_def dget_def)
  show "answers (call_of small_base ''POST'' ''/users/records'' (user_body ''pw'') ''t'' w) (\<lambda>c raw w'.
      200 \<le> c \<and> c < 300
      \<and> (\<exists>i. i \<noteq> [] \<and> rbind (loads_any raw) (\<lambda>j. jget j ''id'' JNull) = Inr (JStr i) \<and> small_users w' = [i])
      \<and> small_systems w' = small_systems w)" if "small_users w = []"
    using small_replies small_paths(2) by (auto simp: w answers_def call_of_def small_base_def)
  show "list_all (\<lambda>nh. fst nh \<notin> set (small_systems w) \<longrightarrow>
      answers (call_of small_base ''POST'' ''/systems/records'' (system_body uid nh) ''t'' w) (\<lambda>c raw w'.
        200 \<le> c \<and> c < 300
        \<and> (\<exists>i. i \<noteq> [] \<and> rbind (loads_any raw) (\<lambda>j. jget j ''id'' JNull) = Inr (JStr i))
        \<and> small_users w' = small_users w \<and> small_systems w' = small_systems w @ [fst nh])) SYSTEMS" for uid
    using small_replies small_paths(3)
    by (simp add: w SYSTEMS_def answers_def call_of_def small_base_def system_body_def)
qed simp


end
