(* ===== verification/Rewrite.thy ===== *)
theory Rewrite
  imports PyStr
begin

text \<open>
  The scripts that edit a configuration in place promise that running them again changes nothing:
  the deployment runs them every time. The interface of such a rewriter, and what follows from it
  for repeated runs.
\<close>

text \<open>The text after \<open>n\<close> runs, or the exception of the first run that raises one.\<close>

fun rerun :: "nat \<Rightarrow> (string \<Rightarrow> string res) \<Rightarrow> string \<Rightarrow> string res" where
  "rerun 0 f t = Inr t"
| "rerun (Suc n) f t = rbind (f t) (rerun n f)"

locale stable_rewrite =
  fixes admissible :: "'c \<Rightarrow> bool"
    and rewrite :: "'c \<Rightarrow> string \<Rightarrow> string res"
  assumes again: "admissible c \<Longrightarrow> rewrite c t = Inr t' \<Longrightarrow> rewrite c t' = Inr t'"
begin

lemma rerun_settled: "admissible c \<Longrightarrow> rewrite c t = Inr t' \<Longrightarrow> rerun n (rewrite c) t' = Inr t'"
  by (induction n) (simp_all add: again)

lemma rerun_once: "admissible c \<Longrightarrow> 0 < n \<Longrightarrow> rerun n (rewrite c) t = rewrite c t"
  by (cases n; cases "rewrite c t") (simp_all add: rerun_settled)

end

subsection \<open>Joined lines\<close>

lemma join_append: "xs \<noteq> [] \<Longrightarrow> ys \<noteq> [] \<Longrightarrow> join sep (xs @ ys) = join sep xs @ sep @ join sep ys"
proof (induction xs)
  case (Cons x xs)
  then show ?case by (cases "xs = []") (simp_all add: join_Cons)
qed simp

lemma ends_with_NL_append [simp]: "ends_with [c] (s @ [c])"
  by (simp add: ends_with_def)

lemma ends_with_char: "ends_with [c] s \<longleftrightarrow> s \<noteq> [] \<and> last s = c"
  by (auto simp: ends_with_iff) (metis append_butlast_last_id)

lemma last_join_NL: "ls \<noteq> [] \<Longrightarrow> last ls \<noteq> [] \<Longrightarrow> last (join sep ls) = last (last ls) \<and> join sep ls \<noteq> []"
proof (induction ls)
  case (Cons l ls)
  then show ?case by (cases "ls = []") (auto simp: join_Cons)
qed simp

lemma unbroken_NL: "unbroken s \<Longrightarrow> NL \<notin> set s"
  by (auto simp: unbroken_def)

lemma join_ends_NL:
  assumes "ls \<noteq> []" "\<forall>l \<in> set ls. unbroken l"
  shows "ends_with [NL] (join [NL] ls) \<longleftrightarrow> 1 < length ls \<and> last ls = []"
proof (cases "last ls = []")
  case False
  then have "last (last ls) \<noteq> NL" using assms unbroken_NL [of "last ls"] by (metis last_in_set)
  with False assms show ?thesis using last_join_NL [of ls "[NL]"] by (simp add: ends_with_char)
next
  case True
  then obtain ks where ks: "ls = ks @ [[]]" using assms(1) by (metis append_butlast_last_id)
  show ?thesis
  proof (cases "ks = []")
    case False
    then show ?thesis by (simp add: ks join_append)
  qed (simp add: ks ends_with_char)
qed

text \<open>Splitting a joined text gives the lines back, but for a last empty one.\<close>

lemma splitlines_join_cases:
  assumes "ls \<noteq> []" "\<forall>l \<in> set ls. unbroken l"
  shows "splitlines (join [NL] ls) = (if last ls = [] then butlast ls else ls)"
proof (cases "last ls = []")
  case True
  then obtain ks where ks: "ls = ks @ [[]]" using assms(1) by (metis append_butlast_last_id)
  show ?thesis
  proof (cases "ks = []")
    case False
    then have "join [NL] ls = join [NL] ks @ [NL]" by (simp add: ks join_append)
    then show ?thesis using False assms(2) ks by (simp add: splitlines_join_NL)
  qed (simp add: ks)
qed (use assms splitlines_join in auto)

subsection \<open>Editing by lines\<close>

text \<open>
  \<open>"\n".join(lines) + ("\n" if text.endswith("\n") else "")\<close> after an edit of the lines. An edit that is
  stable on lines, and on lines without a last empty one, is stable on texts.
\<close>

definition relines :: "(string list \<Rightarrow> string list) \<Rightarrow> string \<Rightarrow> string" where
  "relines g t = join [NL] (g (splitlines t)) @ (if ends_with [NL] t then [NL] else [])"

lemma splitlines_Nil_iff: "splitlines t = [] \<longleftrightarrow> t = []"
proof (cases t)
  case (Cons c s)
  then show ?thesis by (cases "is_linebreak c"; cases "splitlines s") simp_all
qed simp

lemma splitlines_relines:
  assumes ub: "\<forall>l \<in> set (g (splitlines t)). unbroken l" and ne: "g (splitlines t) = [] \<longleftrightarrow> t = []"
  shows "splitlines (relines g t) = g (splitlines t) \<or> g (splitlines t) = splitlines (relines g t) @ [[]]"
proof (cases "t = []")
  case True
  with ne show ?thesis by (simp add: relines_def ends_with_char)
next
  case False
  with ne have n: "g (splitlines t) \<noteq> []" by simp
  show ?thesis
    using splitlines_join_NL [OF n ub] splitlines_join_cases [OF n ub] n
    by (simp add: relines_def) (metis append_butlast_last_id)
qed

lemma relines_again:
  assumes ub: "\<forall>l \<in> set (g (splitlines t)). unbroken l" and ne: "g (splitlines t) = [] \<longleftrightarrow> t = []"
    and idem: "g (g (splitlines t)) = g (splitlines t)"
    and drop: "\<And>ks. g (splitlines t) = ks @ [[]] \<Longrightarrow> ks \<noteq> [] \<Longrightarrow> g ks = ks"
    and nil: "g [] = []"
  shows "relines g (relines g t) = relines g t"
proof (cases "t = []")
  case True
  with nil show ?thesis by (simp add: relines_def ends_with_char)
next
  case t: False
  let ?F = "g (splitlines t)" and ?out = "relines g t"
  note again = relines_def [of g ?out]
  from t ne have n: "?F \<noteq> []" by simp
  show ?thesis
  proof (cases "ends_with [NL] t")
    case True
    then have out: "?out = join [NL] ?F @ [NL]" by (simp add: relines_def)
    then have "splitlines ?out = ?F" "ends_with [NL] ?out" using splitlines_join_NL [OF n ub] by simp_all
    then show ?thesis unfolding again using idem out by simp
  next
    case False
    then have o: "?out = join [NL] ?F" by (simp add: relines_def)
    show ?thesis
    proof (cases "last ?F = []")
      case l: False
      have "splitlines ?out = ?F" unfolding o using splitlines_join_cases [OF n ub] l by simp
      moreover have "\<not> ends_with [NL] ?out" unfolding o using join_ends_NL [OF n ub] l by simp
      ultimately show ?thesis unfolding again using o idem by simp
    next
      case True
      then obtain ks where ks: "?F = ks @ [[]]" using n by (metis append_butlast_last_id)
      show ?thesis
      proof (cases "ks = []")
        case k: True
        then have "?out = []" using o ks by simp
        then show ?thesis unfolding again using nil by (simp add: ends_with_char)
      next
        case k: False
        have sp: "splitlines ?out = ks" unfolding o using splitlines_join_cases [OF n ub] True ks by simp
        have out: "?out = join [NL] ks @ [NL]" using o ks k by (simp add: join_append)
        then have "ends_with [NL] ?out" by simp
        then show ?thesis unfolding again using sp drop [OF ks k] out by simp
      qed
    qed
  qed
qed

end
