(* ===== verification/RenderConfig.thy ===== *)
theory RenderConfig
  imports ClientKeys Rewrite
begin

text \<open>
  The configuration of the proxy rendered from its template, \<open>cliproxy/render-config.py\<close>. Files are
  texts or nothing (an \<open>OSError\<close>); the environment is a map; the file \<open>main\<close> writes is part of its
  result. How it meets \<open>pgstore-keys.py\<close>: the keys it writes are the keys the other script reads.
\<close>

subsection \<open>Keys\<close>

definition doc_khoa_tu_file :: "files \<Rightarrow> string \<Rightarrow> string list" where
  "doc_khoa_tu_file fs path =
     (case fs path of
        None \<Rightarrow> []
      | Some tho \<Rightarrow> filter (\<lambda>d. \<not> comment_or_blank d) (map strip (splitlines tho)))"

definition gop_khoa :: "string list \<Rightarrow> string \<Rightarrow> string list" where
  "gop_khoa khoa_file khoa_secret =
     add_all_new (filter (\<lambda>k. k \<noteq> []) (khoa_file @ (if khoa_secret = [] then [] else [khoa_secret]))) []"

definition escaped_key :: "string \<Rightarrow> string" where
  "escaped_key k = replace_all [CHR 0x22] [CHR 0x5C, CHR 0x22] (replace_all [CHR 0x5C] [CHR 0x5C, CHR 0x5C] k)"

definition key_line :: "string \<Rightarrow> string" where
  "key_line k = ''  - '' @ [CHR 0x22] @ escaped_key k @ [CHR 0x22]"

definition khoi_dong :: "string list \<Rightarrow> string list" where
  "khoi_dong khoa = ''api-keys:'' # map key_line khoa"

definition khoi_api_keys :: "string list \<Rightarrow> string" where
  "khoi_api_keys khoa = join [NL] (khoi_dong khoa)"

subsection \<open>thay_api_keys\<close>

definition dash :: "string \<Rightarrow> bool" where
  "dash d = starts_with ''-'' (strip d)"

definition blank :: "string \<Rightarrow> bool" where
  "blank d = (strip d = [])"

definition other_key_next :: "string list \<Rightarrow> bool" where
  "other_key_next ds = (case filter (\<lambda>d. \<not> blank d) ds of [] \<Rightarrow> False | c # _ \<Rightarrow> \<not> dash c)"

text \<open>The inner loop: past the items and the blank lines of the old block.\<close>

fun skip_items :: "string list \<Rightarrow> string list" where
  "skip_items [] = []"
| "skip_items (d # ds) =
     (if dash d \<or> blank d then (if blank d \<and> other_key_next ds then d # ds else skip_items ds) else d # ds)"

lemma skip_items_length: "length (skip_items ds) \<le> length ds"
  by (induction ds) auto

definition old_header :: "string \<Rightarrow> bool" where
  "old_header d = starts_with ''api-keys:'' d"

text \<open>The outer loop: the parts of the new text, and \<open>thay_roi\<close>.\<close>

function replace_blocks :: "string \<Rightarrow> string list \<Rightarrow> string list \<times> bool" where
  "replace_blocks khoi [] = ([], False)"
| "replace_blocks khoi (d # ds) =
     (if old_header d then (khoi # fst (replace_blocks khoi (skip_items ds)), True)
      else (case replace_blocks khoi ds of (ra, thay_roi) \<Rightarrow> (d # ra, thay_roi)))"
  by pat_completeness auto
termination
  by (relation "measure (\<lambda>(k, ds). length ds)") (auto simp: le_imp_less_Suc skip_items_length)

definition thay_api_keys :: "string \<Rightarrow> string list \<Rightarrow> string res" where
  "thay_api_keys tho khoa =
     (case replace_blocks (khoi_api_keys khoa) (splitlines tho) of (ra, thay_roi) \<Rightarrow>
        if \<not> thay_roi then Inl (SystemExitMsg ''template khong co khoi api-keys:'')
        else Inr (join [NL] ra @ (if ends_with [NL] tho then [NL] else [])))"

subsection \<open>main\<close>

text \<open>\<open>d.split(":", 1)[1].strip().strip('"').strip("'")\<close> of the first line that sets \<open>ten\<close>.\<close>

definition gia_tri_tu_config :: "files \<Rightarrow> string \<Rightarrow> string \<Rightarrow> string" where
  "gia_tri_tu_config fs path ten =
     (case fs path of
        None \<Rightarrow> []
      | Some tho \<Rightarrow>
          (case find (\<lambda>d. starts_with (ten @ '':'') d) (map strip (splitlines tho)) of
             None \<Rightarrow> []
           | Some d \<Rightarrow>
               strip_char (CHR 0x27) (strip_char (CHR 0x22)
                 (strip (case snd (split1 '':'' d) of None \<Rightarrow> [] | Some v \<Rightarrow> v)))))"

definition placeholders :: "string list" where
  "placeholders = [''__API_KEY__'', ''__MANAGEMENT_KEY__'', ''__CHAT_HISTORY_DSN__'']"

definition is_comment :: "string \<Rightarrow> bool" where
  "is_comment dong = starts_with ''#'' (lstrip dong)"

definition left_over :: "string \<Rightarrow> string option" where
  "left_over tho =
     (case somes (map (\<lambda>dong. find (\<lambda>gc. contains gc dong) placeholders)
             (filter (\<lambda>dong. \<not> is_comment dong) (splitlines tho))) of
        [] \<Rightarrow> None | gc # _ \<Rightarrow> Some gc)"

definition KEY_FILE_MAC_DINH :: string where
  "KEY_FILE_MAC_DINH = ''/opt/opencode/secrets/cliproxy.key''"

definition env_or :: "files \<Rightarrow> string \<Rightarrow> string" where
  "env_or env name = (case env name of None \<Rightarrow> [] | Some v \<Rightarrow> v)"

definition render_keys :: "files \<Rightarrow> files \<Rightarrow> string list" where
  "render_keys env fs =
     gop_khoa (doc_khoa_tu_file fs (let p = env_or env ''CLIPROXY_KEY_FILE'' in if p = [] then KEY_FILE_MAC_DINH else p))
       (strip (env_or env ''CLIPROXY_API_KEY''))"

definition setting :: "files \<Rightarrow> files \<Rightarrow> bool \<Rightarrow> string \<Rightarrow> string \<Rightarrow> string \<Rightarrow> string" where
  "setting env fs tu_config dich name key =
     (let v = env_or env name in if v = [] \<and> tu_config then gia_tri_tu_config fs dich key else v)"

text \<open>The exit code, and the file written, if any.\<close>

definition render_main :: "files \<Rightarrow> files \<Rightarrow> string list \<Rightarrow> (int \<times> (string \<times> string) option) res" where
  "render_main env fs argv =
     (if length argv < 3 then Inr (2, None)
      else
        let template = argv ! 1; dich = argv ! 2; tu_config = ''--tu-config'' \<in> set (drop 3 argv);
            khoa = render_keys env fs
        in if khoa = [] then Inl (SystemExitMsg ''khong co khoa nao'')
        else
          let mgmt = setting env fs tu_config dich ''CLIPROXY_MGMT_KEY'' ''secret-key'';
              dsn = setting env fs tu_config dich ''CHAT_HISTORY_DSN'' ''chat-history-dsn''
          in if mgmt = [] then Inl (SystemExitMsg ''thieu CLIPROXY_MGMT_KEY'')
          else case fs template of
            None \<Rightarrow> Inl OtherError
          | Some tho \<Rightarrow>
              rbind (thay_api_keys (replace_all ''__CHAT_HISTORY_DSN__'' dsn
                       (replace_all ''__MANAGEMENT_KEY__'' mgmt tho)) khoa) (\<lambda>out.
                case left_over out of
                  Some gc \<Rightarrow> Inl (SystemExitMsg (''config.yaml van con placeholder '' @ gc))
                | None \<Rightarrow> Inr (0, Some (dich, out))))"

subsection \<open>Running it again\<close>

text \<open>The lines of the new text.\<close>

function flat :: "string list \<Rightarrow> string list \<Rightarrow> string list" where
  "flat blk [] = []"
| "flat blk (d # ds) = (if old_header d then blk @ flat blk (skip_items ds) else d # flat blk ds)"
  by pat_completeness auto
termination
  by (relation "measure (\<lambda>(k, ds). length ds)") (auto simp: le_imp_less_Suc skip_items_length)

lemma flat_Nil_iff: "blk \<noteq> [] \<Longrightarrow> flat blk ds = [] \<longleftrightarrow> ds = []"
  by (cases ds) auto

lemma replace_blocks_flat:
  "blk \<noteq> [] \<Longrightarrow> join [NL] (fst (replace_blocks (join [NL] blk) ds)) = join [NL] (flat blk ds)
    \<and> (fst (replace_blocks (join [NL] blk) ds) = [] \<longleftrightarrow> ds = [])"
proof (induction blk ds rule: flat.induct)
  case (2 blk d ds)
  show ?case
  proof (cases "old_header d")
    case True
    note IH = "2.IH"(1) [OF True "2.prems"]
    show ?thesis
    proof (cases "skip_items ds = []")
      case False
      then have "fst (replace_blocks (join [NL] blk) (skip_items ds)) \<noteq> []" "flat blk (skip_items ds) \<noteq> []"
        using IH "2.prems" by (simp_all add: flat_Nil_iff)
      with True IH "2.prems" show ?thesis by (simp add: join_Cons join_append)
    qed (use True in simp)
  next
    case False
    note IH = "2.IH"(2) [OF False "2.prems"]
    show ?thesis
    proof (cases "ds = []")
      case ne: False
      then have "fst (replace_blocks (join [NL] blk) ds) \<noteq> []" "flat blk ds \<noteq> []"
        using IH "2.prems" by (simp_all add: flat_Nil_iff)
      with False IH show ?thesis by (simp add: join_Cons split_beta)
    qed (use False in simp)
  qed
qed simp

lemma dash_no_header: "dash d \<Longrightarrow> \<not> old_header d"
proof
  assume d: "dash d" "old_header d"
  then obtain t where t: "d = CHR ''a'' # t" by (cases d) (auto simp: old_header_def)
  have "lstrip d = d" using t by (intro lstrip_eq_self) (simp add: is_space_def)
  moreover obtain u where u: "strip d = CHR ''-'' # u" using d(1) by (cases "strip d") (auto simp: dash_def)
  moreover obtain w where "lstrip d = strip d @ w" using rstrip_prefix [of "lstrip d"] by (auto simp: strip_def)
  ultimately show False using t by simp
qed

lemma blank_no_header: "blank d \<Longrightarrow> \<not> old_header d"
proof
  assume d: "blank d" "old_header d"
  then obtain t where "d = CHR ''a'' # t" by (cases d) (auto simp: old_header_def)
  with d(1) show False by (simp add: blank_def strip_Nil_iff is_space_def)
qed

lemma skip_items_suffix: "\<exists>sk. ds = sk @ skip_items ds \<and> list_all (\<lambda>d. \<not> old_header d) sk"
proof (induction ds)
  case (Cons d ds)
  then obtain sk where sk: "ds = sk @ skip_items ds" "list_all (\<lambda>d. \<not> old_header d) sk" by blast
  show ?case
  proof (cases "(dash d \<or> blank d) \<and> \<not> (blank d \<and> other_key_next ds)")
    case True
    then have "skip_items (d # ds) = skip_items ds" "\<not> old_header d"
      using dash_no_header blank_no_header by auto
    with sk show ?thesis by (intro exI [of _ "d # sk"]) auto
  next
    case False
    then have "skip_items (d # ds) = d # ds" by auto
    then show ?thesis by (intro exI [of _ "[]"]) simp
  qed
qed simp

lemma replace_blocks_flag: "snd (replace_blocks khoi ds) \<longleftrightarrow> list_ex old_header ds"
  by (induction khoi ds rule: replace_blocks.induct) (auto split: prod.split)

lemma thay_api_keys_flat:
  "thay_api_keys tho khoa =
     (if list_ex old_header (splitlines tho)
      then Inr (join [NL] (flat (khoi_dong khoa) (splitlines tho)) @ (if ends_with [NL] tho then [NL] else []))
      else Inl (SystemExitMsg ''template khong co khoi api-keys:''))"
  using replace_blocks_flat [of "khoi_dong khoa" "splitlines tho"]
    replace_blocks_flag [of "khoi_api_keys khoa" "splitlines tho"]
  by (simp add: thay_api_keys_def split_beta khoi_api_keys_def khoi_dong_def)

text \<open>The lines of a block are items, and its skipping stops where it stopped before.\<close>

lemma dash_key_line: "dash (key_line k)" and key_line_strip: "strip (key_line k) = drop 2 (key_line k)"
proof -
  have "lstrip (key_line k) = drop 2 (key_line k)"
    by (simp add: key_line_def lstrip_def is_space_def)
  moreover have "rstrip (drop 2 (key_line k)) = drop 2 (key_line k)"
    by (rule rstrip_eq_self) (simp add: key_line_def is_space_def)
  ultimately show "strip (key_line k) = drop 2 (key_line k)" by (simp add: strip_def)
  then show "dash (key_line k)" by (simp add: dash_def key_line_def)
qed

lemma old_header_header: "old_header ''api-keys:''" "\<not> dash ''api-keys:''" "\<not> blank ''api-keys:''"
proof -
  have "strip ''api-keys:'' = ''api-keys:''" by (rule strip_eq_self) (simp add: is_space_def)
  then show "\<not> dash ''api-keys:''" "\<not> blank ''api-keys:''" by (simp_all add: dash_def blank_def)
  show "old_header ''api-keys:''" by (simp add: old_header_def)
qed

lemma skip_key_lines: "skip_items (map key_line khoa @ ds) = skip_items ds"
proof (induction khoa)
  case (Cons k khoa)
  have "\<not> blank (key_line k)" using dash_key_line [of k] by (auto simp: dash_def blank_def)
  with Cons show ?case by (simp add: dash_key_line)
qed simp

lemma skip_skip: "skip_items (skip_items ds) = skip_items ds"
proof (induction ds)
  case (Cons d ds)
  show ?case
  proof (cases "(dash d \<or> blank d) \<and> \<not> (blank d \<and> other_key_next ds)")
    case True
    then have "skip_items (d # ds) = skip_items ds" by auto
    with Cons show ?thesis by simp
  next
    case False
    then have "skip_items (d # ds) = d # ds" by auto
    then show ?thesis by simp
  qed
qed simp

lemma other_key_next_flat: "other_key_next ds \<Longrightarrow> other_key_next (flat (khoi_dong khoa) ds)"
proof (induction ds)
  case (Cons d ds)
  show ?case
  proof (cases "blank d")
    case True
    with Cons blank_no_header [OF True] show ?thesis by (simp add: other_key_next_def)
  next
    case False
    with Cons.prems old_header_header show ?thesis by (simp add: other_key_next_def khoi_dong_def)
  qed
qed simp

lemma skip_flat: "skip_items ds = ds \<Longrightarrow> skip_items (flat (khoi_dong khoa) ds) = flat (khoi_dong khoa) ds"
proof (cases ds)
  case (Cons d ds')
  assume a: "skip_items ds = ds"
  have "length (skip_items ds') \<le> length ds'" by (rule skip_items_length)
  with a Cons have st: "\<not> ((dash d \<or> blank d) \<and> \<not> (blank d \<and> other_key_next ds'))" by auto
  show ?thesis
  proof (cases "old_header d")
    case True
    with Cons old_header_header show ?thesis by (simp add: khoi_dong_def)
  next
    case False
    with Cons st other_key_next_flat [of ds' khoa] show ?thesis by auto
  qed
qed simp

lemma flat_flat: "flat (khoi_dong khoa) (flat (khoi_dong khoa) ds) = flat (khoi_dong khoa) ds"
proof (induction "khoi_dong khoa" ds rule: flat.induct)
  case (2 d ds)
  show ?case
  proof (cases "old_header d")
    case True
    let ?X = "flat (khoi_dong khoa) (skip_items ds)"
    have "skip_items ?X = ?X" by (rule skip_flat) (rule skip_skip)
    with True 2 old_header_header(1) show ?thesis by (simp add: khoi_dong_def skip_key_lines)
  qed (use 2 in simp)
qed simp

text \<open>A last empty line is kept or swallowed by a block that reaches the end.\<close>

lemma other_key_next_snoc: "other_key_next (ds @ [[]]) = other_key_next ds"
  by (simp add: other_key_next_def blank_def strip_eq_self)

lemma skip_items_snoc: "skip_items (ds @ [[]]) = (if skip_items ds = [] then [] else skip_items ds @ [[]])"
proof (induction ds)
  case Nil
  show ?case by (simp add: dash_def blank_def strip_eq_self other_key_next_def)
next
  case (Cons d ds)
  then show ?case by (simp add: other_key_next_snoc)
qed

lemma flat_snoc:
  "flat blk (ds @ [[]]) = flat blk ds @ [[]]
   \<or> (flat blk (ds @ [[]]) = flat blk ds \<and> (\<exists>ys. flat blk ds = ys @ blk))"
proof (induction blk ds rule: flat.induct)
  case (1 blk)
  show ?case by (simp add: old_header_def)
next
  case (2 blk d ds)
  show ?case
  proof (cases "old_header d")
    case True
    show ?thesis
    proof (cases "skip_items ds = []")
      case s: True
      with True show ?thesis by (simp add: skip_items_snoc)
    next
      case s: False
      from "2.IH"(1) [OF True] show ?thesis
      proof
        assume "flat blk (skip_items ds @ [[]]) = flat blk (skip_items ds) @ [[]]"
        with True s show ?thesis by (simp add: skip_items_snoc)
      next
        assume "flat blk (skip_items ds @ [[]]) = flat blk (skip_items ds) \<and> (\<exists>ys. flat blk (skip_items ds) = ys @ blk)"
        then obtain ys where "flat blk (skip_items ds @ [[]]) = flat blk (skip_items ds)"
          "flat blk (skip_items ds) = ys @ blk" by blast
        with True s have "flat blk ((d # ds) @ [[]]) = flat blk (d # ds)" "flat blk (d # ds) = (blk @ ys) @ blk"
          by (simp_all add: skip_items_snoc)
        then show ?thesis by blast
      qed
    qed
  next
    case False
    from "2.IH"(2) [OF False] show ?thesis
    proof
      assume "flat blk (ds @ [[]]) = flat blk ds \<and> (\<exists>ys. flat blk ds = ys @ blk)"
      then obtain ys where "flat blk (ds @ [[]]) = flat blk ds" "flat blk ds = ys @ blk" by blast
      with False have "flat blk ((d # ds) @ [[]]) = flat blk (d # ds)" "flat blk (d # ds) = (d # ys) @ blk"
        by simp_all
      then show ?thesis by blast
    qed (use False in simp)
  qed
qed

lemma last_khoi_dong: "last (khoi_dong khoa) \<noteq> []"
  by (cases khoa rule: rev_cases) (simp_all add: khoi_dong_def key_line_def)

lemma flat_butlast:
  assumes "flat (khoi_dong khoa) (ds @ [[]]) = ds @ [[]]"
  shows "flat (khoi_dong khoa) ds = ds"
  using flat_snoc [of "khoi_dong khoa" ds] assms last_khoi_dong [of khoa]
  by (metis append_same_eq last_appendR last_snoc list.distinct(1) khoi_dong_def)

lemma list_ex_header_flat:
  "list_ex old_header ds \<Longrightarrow> list_ex old_header (flat (khoi_dong khoa) ds)"
  by (induction "khoi_dong khoa" ds rule: flat.induct) (auto simp: khoi_dong_def old_header_header)

lemma replace_all_char: "replace_all [c] new s = concat (map (\<lambda>x. if x = c then new else [x]) s)"
  by (induction s) auto

lemma escaped_key_quote: "escaped_key k = concat (map quote_char k)"
  by (induction k) (auto simp: escaped_key_def replace_all_char quote_char_def)

lemma unbroken_key_line: "unbroken k \<Longrightarrow> unbroken (key_line k)"
proof -
  assume "unbroken k"
  then have "unbroken (concat (map quote_char k))"
    by (induction k) (auto simp: quote_char_def is_linebreak_def)
  then show ?thesis by (simp add: key_line_def escaped_key_quote is_linebreak_def)
qed

lemma unbroken_khoi_dong: "list_all unbroken khoa \<Longrightarrow> \<forall>l \<in> set (khoi_dong khoa). unbroken l"
  by (auto simp: khoi_dong_def list_all_iff unbroken_key_line is_linebreak_def)

lemma flat_unbroken:
  "\<forall>l \<in> set blk. unbroken l \<Longrightarrow> \<forall>l \<in> set ds. unbroken l \<Longrightarrow> \<forall>l \<in> set (flat blk ds). unbroken l"
proof (induction blk ds rule: flat.induct)
  case (2 blk d ds)
  obtain sk where "ds = sk @ skip_items ds" using skip_items_suffix [of ds] by blast
  then have "set (skip_items ds) \<subseteq> set ds" by (metis Un_upper2 set_append)
  then show ?case using 2 by auto
qed simp

text \<open>The text of the new file, as an edit of its lines.\<close>

lemma thay_api_keys_relines:
  "thay_api_keys tho khoa =
     (if list_ex old_header (splitlines tho) then Inr (relines (flat (khoi_dong khoa)) tho)
      else Inl (SystemExitMsg ''template khong co khoi api-keys:''))"
  by (simp add: thay_api_keys_flat relines_def)

lemma flat_facts:
  assumes "list_all unbroken khoa"
  shows "\<forall>l \<in> set (flat (khoi_dong khoa) (splitlines tho)). unbroken l"
    and "flat (khoi_dong khoa) (splitlines tho) = [] \<longleftrightarrow> tho = []"
  using flat_unbroken [OF unbroken_khoi_dong [OF assms]] splitlines_unbroken
  by (auto simp: flat_Nil_iff khoi_dong_def splitlines_Nil_iff)

lemma splitlines_rendered:
  assumes out: "thay_api_keys tho khoa = Inr out" and k: "list_all unbroken khoa"
  shows "splitlines out = flat (khoi_dong khoa) (splitlines tho)
    \<or> flat (khoi_dong khoa) (splitlines tho) = splitlines out @ [[]]"
    and "list_ex old_header (splitlines tho)"
  using out splitlines_relines [of "flat (khoi_dong khoa)" tho, OF flat_facts [OF k]]
  by (auto simp: thay_api_keys_relines split: if_splits)

lemma thay_api_keys_again:
  assumes out: "thay_api_keys tho khoa = Inr out" and k: "list_all unbroken khoa"
  shows "thay_api_keys out khoa = Inr out"
proof -
  let ?F = "flat (khoi_dong khoa) (splitlines tho)"
  note s = splitlines_rendered [OF out k]
  have r: "relines (flat (khoi_dong khoa)) out = out"
  proof -
    have "out = relines (flat (khoi_dong khoa)) tho"
      using out s(2) by (simp add: thay_api_keys_relines)
    moreover have "relines (flat (khoi_dong khoa)) (relines (flat (khoi_dong khoa)) tho) = relines (flat (khoi_dong khoa)) tho"
      by (rule relines_again [of "flat (khoi_dong khoa)" tho, OF flat_facts [OF k] flat_flat])
        (use flat_flat [of khoa "splitlines tho"] flat_butlast in auto)
    ultimately show ?thesis by simp
  qed
  have "list_ex old_header ?F" by (rule list_ex_header_flat) (rule s(2))
  then have "list_ex old_header (splitlines out)" using s(1) by (auto simp: old_header_def)
  with r show ?thesis by (simp add: thay_api_keys_relines)
qed

text \<open>The renderer as a rewriter of the file, with the keys as its setting.\<close>

interpretation ak: stable_rewrite "list_all unbroken" "\<lambda>khoa tho. thay_api_keys tho khoa"
  by unfold_locales (rule thay_api_keys_again)

text \<open>Rendering the key block again, any number of times, gives the text the first rendering gave, or the
  same error.\<close>

theorem thay_api_keys_stable:
  assumes "list_all unbroken khoa" and "0 < n"
  shows "rerun n (\<lambda>tho. thay_api_keys tho khoa) tho = thay_api_keys tho khoa"
  by (rule ak.rerun_once [OF assms])

theorem thay_api_keys_stable_witness:
  "rerun 2 (\<lambda>tho. thay_api_keys tho [''k''])  ''api-keys:'' = thay_api_keys ''api-keys:'' [''k'']"
  by (rule thay_api_keys_stable) (simp_all add: is_linebreak_def)

subsection \<open>What it writes is read back\<close>

text \<open>A key that survives the round trip: on one line and without control characters.\<close>

definition plain_key :: "string \<Rightarrow> bool" where
  "plain_key k = (k \<noteq> [] \<and> no_control k \<and> unbroken k)"

lemma dq_take_quoted: "dq_take (concat (map quote_char k) @ [CHR 0x22]) = concat (map quote_char k) @ [CHR 0x22]"
  by (induction k) (auto simp: quote_char_def)

lemma scalar_quoted:
  assumes "no_control k"
  shows "scalar (CHR 0x22 # concat (map quote_char k) @ [CHR 0x22]) = Inr (Some k)"
proof -
  let ?s = "CHR 0x22 # concat (map quote_char k) @ [CHR 0x22]"
  have "strip ?s = ?s" by (rule strip_eq_self) (simp add: is_space_def)
  then show ?thesis by (simp add: scalar_def dq_take_quoted loads_quoted [OF assms])
qed

lemma key_items_key_lines:
  assumes "list_all plain_key khoa"
  shows "key_items 0 (map key_line khoa @ ls) = rbind (key_items 0 ls) (\<lambda>(ks, r). Inr (khoa @ ks, r))"
  using assms
proof (induction khoa)
  case Nil
  show ?case by (cases "key_items 0 ls") simp_all
next
  case (Cons k khoa)
  have s: "strip (key_line k) = ''- '' @ CHR 0x22 # concat (map quote_char k) @ [CHR 0x22]"
    unfolding key_line_strip by (simp add: key_line_def escaped_key_quote)
  have "indent_of (key_line k) = 2" by (simp add: indent_of_def key_line_def)
  with Cons show ?case
    by (cases "key_items 0 ls")
      (simp_all add: s scalar_quoted comment_or_blank_def plain_key_def add_key_def split_beta)
qed

lemma header_line: "strip ''api-keys:'' = ''api-keys:''" "indent_of ''api-keys:'' = 0"
  by (code_simp, code_simp)

text \<open>Items of an earlier block end at a header at the left margin.\<close>

lemma key_items_stops:
  "key_items indent (pre @ ''api-keys:'' # ls) = Inr (ks, r) \<Longrightarrow>
   \<exists>pre'. r = pre' @ ''api-keys:'' # ls \<and> length pre' \<le> length pre"
proof (induction pre arbitrary: ks)
  case Nil
  have "indent = 0 \<or> 0 < indent" by blast
  with Nil show ?case by (auto simp: header_line comment_or_blank_def Let_def split: if_splits)
next
  case (Cons l pre)
  let ?rest = "pre @ ''api-keys:'' # ls"
  have "(\<exists>ks'. key_items indent ?rest = Inr (ks', r)) \<or> r = l # ?rest"
    using Cons.prems by (auto simp: Let_def res_simps split: if_splits)
  then show ?case
  proof
    assume "\<exists>ks'. key_items indent ?rest = Inr (ks', r)"
    then obtain pre' where "r = pre' @ ''api-keys:'' # ls" "length pre' \<le> length pre"
      using Cons.IH by blast
    then show ?thesis by (intro exI [of _ pre']) simp
  next
    assume "r = l # ?rest"
    then show ?thesis by (intro exI [of _ "l # pre"]) simp
  qed
qed

lemma key_lines_reach:
  assumes "key_lines p (pre @ ''api-keys:'' # ls) = Inr ks"
  shows "\<exists>p' ks1 ks2. key_lines p' (''api-keys:'' # ls) = Inr ks2 \<and> ks = ks1 @ ks2"
  using assms
proof (induction "length pre" arbitrary: p pre ks rule: less_induct)
  case less
  show ?case
  proof (cases pre)
    case Nil
    with less.prems have "key_lines p (''api-keys:'' # ls) = Inr ks \<and> ks = [] @ ks" by simp
    then show ?thesis by blast
  next
    case (Cons l pre')
    from less.prems [unfolded Cons append_Cons] show ?thesis
    proof (cases rule: key_lines_cases)
      case skip
      show ?thesis by (rule less.hyps [OF _ skip(2)]) (simp add: Cons)
    next
      case (flow k1 k2)
      from less.hyps [OF _ flow(3)] Cons obtain p' a b
        where "key_lines p' (''api-keys:'' # ls) = Inr b" "k2 = a @ b" by (auto simp del: key_lines.simps)
      with flow(4) show ?thesis by (metis append.assoc)
    next
      case (block k1 r k2)
      from key_items_stops [OF block(3)] obtain pre'' where r: "r = pre'' @ ''api-keys:'' # ls"
        and l: "length pre'' \<le> length pre'" by blast
      have kr: "key_lines (in_access p l) (pre'' @ ''api-keys:'' # ls) = Inr k2" using block(5) by (simp only: r)
      from less.hyps [OF _ kr] l Cons obtain p' a b
        where "key_lines p' (''api-keys:'' # ls) = Inr b" "k2 = a @ b" by (auto simp del: key_lines.simps)
      with block(6) show ?thesis by (metis append.assoc)
    qed
  qed
qed

lemma flow_list_empty: "flow_list [] = Inr None"
  by code_simp

lemma key_lines_rendered:
  assumes "list_all plain_key khoa" and "key_lines p (pre @ khoi_dong khoa @ post) = Inr ks"
  shows "set khoa \<subseteq> set ks"
proof -
  have "key_lines p (pre @ ''api-keys:'' # map key_line khoa @ post) = Inr ks"
    using assms(2) by (simp add: khoi_dong_def)
  from key_lines_reach [OF this] obtain p' ks1 ks2
    where k: "key_lines p' (''api-keys:'' # map key_line khoa @ post) = Inr ks2" and ks: "ks = ks1 @ ks2" by blast
  have h: "keys_header p' ''api-keys:''" by (simp add: keys_header_def header_line)
  have fl: "flow_list (drop 9 (strip ''api-keys:'')) = Inr None" by (simp add: header_line flow_list_empty)
  have "set khoa \<subseteq> set ks2"
    using k unfolding key_lines_block [OF h fl] header_line key_items_key_lines [OF assms(1)]
    by (auto simp: res_simps)
  then show ?thesis by (auto simp: ks)
qed

lemma flat_has_block:
  "list_ex old_header ds \<Longrightarrow> \<exists>pre post. flat blk ds = pre @ blk @ post"
proof (induction ds)
  case (Cons d ds)
  show ?case
  proof (cases "old_header d")
    case True
    then have "flat blk (d # ds) = [] @ blk @ flat blk (skip_items ds)" by simp
    then show ?thesis by blast
  next
    case False
    with Cons obtain pre post where "flat blk ds = pre @ blk @ post" by auto
    with False have "flat blk (d # ds) = (d # pre) @ blk @ post" by simp
    then show ?thesis by blast
  qed
qed simp


definition odd_key :: string where
  "odd_key = ''k'' @ [CHR 0x22, CHR 0x5C] @ ''1: #''"

definition small_template :: string where
  "small_template = join [NL] [''access:'', ''  api-keys: [a]'', ''api-keys:'', ''  - old'', [], ''debug: false'']"

lemma odd_key_rendered:
  "rbind (thay_api_keys small_template [odd_key, ''k2'']) keys_from_text = Inr [''a'', odd_key, ''k2'']"
  by code_simp


subsection \<open>main\<close>

lemma left_over_None:
  "left_over tho = None \<longleftrightarrow>
   list_all (\<lambda>dong. is_comment dong \<or> \<not> list_ex (\<lambda>gc. contains gc dong) placeholders) (splitlines tho)"
proof -
  let ?hit = "\<lambda>dong. find (\<lambda>gc. contains gc dong) placeholders"
  let ?ds = "filter (\<lambda>dong. \<not> is_comment dong) (splitlines tho)"
  have "left_over tho = None \<longleftrightarrow> set (somes (map ?hit ?ds)) = {}"
    by (simp add: left_over_def split: list.split)
  also have "\<dots> \<longleftrightarrow> (\<forall>p. Some p \<notin> set (map ?hit ?ds))"
    by (simp only: set_somes [symmetric] set_eq_iff empty_iff simp_thms)
  also have "\<dots> \<longleftrightarrow> (\<forall>d \<in> set ?ds. ?hit d = None)"
    unfolding set_map image_iff by (metis not_Some_eq)
  also have "\<dots> \<longleftrightarrow> (\<forall>d \<in> set ?ds. \<not> list_ex (\<lambda>gc. contains gc d) placeholders)"
    by (auto simp: find_None_iff list_ex_iff)
  finally show ?thesis by (auto simp: list_all_iff)
qed


definition sample_env :: files where
  "sample_env = map_of [(''CLIPROXY_API_KEY'', '' k2 ''), (''CLIPROXY_MGMT_KEY'', ''m'')]"

definition sample_files :: files where
  "sample_files = map_of [(KEY_FILE_MAC_DINH, join [NL] [''# keys'', ''k1'']),
     (''t'', join [NL] [''# __API_KEY__'', ''secret-key: __MANAGEMENT_KEY__'', ''api-keys:'', ''  - __API_KEY__''])]"

definition sample_rendered :: string where
  "sample_rendered = join [NL] [''# __API_KEY__'', ''secret-key: m'', ''api-keys:'', key_line ''k1'', key_line ''k2'']"

lemma sample_render: "render_main sample_env sample_files [''render-config.py'', ''t'', ''o''] = Inr (0, Some (''o'', sample_rendered))"
  by code_simp


end
