(* ===== verification/KeySync.thy ===== *)
theory KeySync
  imports ClientKeys Http
begin

text \<open>
  The half of \<open>cliproxy/pgstore-keys.py\<close> that talks to the proxy: \<open>base_url\<close>, \<open>http\<close>, \<open>wait_ready\<close>,
  \<open>present_keys\<close>, \<open>sync\<close>, \<open>check\<close> and \<open>main\<close>. The proxy, the clock and \<open>sleep\<close> are a \<open>world\<close>. The loops
  that wait are partial functions, \<open>None\<close> when they never end; \<open>clock_runs\<close> is the law under which they
  do. What is written to stderr is not modelled, what is raised is.
\<close>

subsection \<open>http\<close>

definition base_url :: "files \<Rightarrow> string" where
  "base_url env =
     (let ov = strip (case env ''CLIPROXY_BASE_URL'' of None \<Rightarrow> [] | Some v \<Rightarrow> v) in
      if ov \<noteq> [] then rstrip_char (CHR ''/'') ov
      else ''http://127.0.0.1:'' @ (case env ''CLIPROXY_PUBLIC_PORT'' of None \<Rightarrow> ''28417'' | Some p \<Rightarrow> p))"

definition key_request :: "string \<Rightarrow> string \<Rightarrow> string \<Rightarrow> string \<Rightarrow> body \<Rightarrow> request" where
  "key_request base method path token body =
     \<lparr>ht_method = method, ht_url = base @ path, ht_token = ''Bearer '' @ token, ht_body = body\<rparr>"

definition http :: "'w world \<Rightarrow> request \<Rightarrow> 'w \<Rightarrow> (int \<times> string) \<times> 'w" where
  "http W rq w =
     (case wd_server W rq w of
        (Answer c raw, w') \<Rightarrow> ((c, raw), w')
      | (NoAnswer, w') \<Rightarrow> ((0, []), w'))"

subsection \<open>wait_ready\<close>

definition probe_request :: "string \<Rightarrow> request" where
  "probe_request base = key_request base ''GET'' ''/v1/models'' ''probe-not-a-key'' NoBody"

partial_function (option) wait_loop :: "'w world \<Rightarrow> request \<Rightarrow> rat \<Rightarrow> 'w \<Rightarrow> (bool \<times> 'w) option" where
  "wait_loop W rq deadline w =
     (if wd_time W w < deadline then
        (let (a, w1) = http W rq w in
         if fst a \<noteq> 0 then Some (True, w1) else wait_loop W rq deadline (wd_sleep W 2 w1))
      else Some (False, w))"

definition wait_ready :: "'w world \<Rightarrow> string \<Rightarrow> rat \<Rightarrow> 'w \<Rightarrow> (bool \<times> 'w) option" where
  "wait_ready W base seconds w = wait_loop W (probe_request base) (wd_time W w + seconds) w"

subsection \<open>present_keys and sync\<close>

definition label :: "nat \<Rightarrow> string \<Rightarrow> string" where
  "label idx key = ''khoa#'' @ int_str (int idx + 1) @ ''(len='' @ int_str (int (length key)) @ '')''"

definition present_request :: "string \<Rightarrow> string \<Rightarrow> request" where
  "present_request base mgmt = key_request base ''GET'' ''/v0/management/api-keys'' mgmt NoBody"

definition read_present :: "int \<Rightarrow> string \<Rightarrow> json list res" where
  "read_present status raw =
     (if status \<in> {401, 403} then Inl (SystemExitCode 3)
      else if status \<noteq> 200
      then Inl (SystemExitMsg (''GET /v0/management/api-keys -> HTTP '' @ int_str status))
      else case loads_bytes raw of
        Inl (ValueError _) \<Rightarrow> Inl (SystemExitMsg ''phan hoi /v0/management/api-keys khong phai JSON'')
      | Inl e \<Rightarrow> Inl e
      | Inr j \<Rightarrow> rbind (jget j ''api-keys'' JNull) py_list)"

definition present_keys :: "'w world \<Rightarrow> string \<Rightarrow> string \<Rightarrow> (json list, 'w) action" where
  "present_keys W base mgmt w =
     (case http W (present_request base mgmt) w of ((status, raw), w') \<Rightarrow> (read_present status raw, w'))"

definition add_request :: "string \<Rightarrow> string \<Rightarrow> string \<Rightarrow> request" where
  "add_request base mgmt k =
     key_request base ''PATCH'' ''/v0/management/api-keys'' mgmt (JsonBody (JObj [(''old'', JStr k), (''new'', JStr k)]))"

definition add_key_action :: "'w world \<Rightarrow> string \<Rightarrow> string \<Rightarrow> nat \<times> string \<Rightarrow> (unit, 'w) action" where
  "add_key_action W base mgmt ik w =
     (case http W (add_request base mgmt (snd ik)) w of
        ((status, raw), w') \<Rightarrow>
          if status \<noteq> 200
          then (Inl (SystemExitMsg (''them '' @ label (fst ik) (snd ik) @ '' that bai: HTTP '' @ int_str status @ '' ''
                  @ repr_bytes (take 200 raw))), w')
          else (Inr (), w'))"

definition sync_ready :: "'w world \<Rightarrow> string \<Rightarrow> string list \<Rightarrow> string \<Rightarrow> (int, 'w) action" where
  "sync_ready W base wanted mgmt =
     abind (present_keys W base mgmt) (\<lambda>present.
     let missing = filter (\<lambda>k. JStr k \<notin> set present) wanted in
     abind (amap (add_key_action W base mgmt)
              (filter (\<lambda>(idx, k). k \<in> set missing) (enumerate 0 wanted))) (\<lambda>_.
     abind (present_keys W base mgmt) (\<lambda>after.
     let still = filter (\<lambda>k. JStr k \<notin> set after) wanted in
     if still \<noteq> []
     then araise (SystemExitMsg (''sau khi them van thieu '' @ int_str (int (length still)) @ '' khoa''))
     else aret 0)))"

definition not_ready :: pyexn where
  "not_ready = SystemExitMsg ''proxy khong tra loi sau 120s''"

definition sync :: "'w world \<Rightarrow> string \<Rightarrow> string list \<Rightarrow> string \<Rightarrow> 'w \<Rightarrow> (int res \<times> 'w) option" where
  "sync W base wanted mgmt w =
     (case wait_ready W base 120 w of
        None \<Rightarrow> None
      | Some (ready, w') \<Rightarrow>
          Some (if ready then sync_ready W base wanted mgmt w' else (Inl not_ready, w')))"

subsection \<open>check\<close>

definition model_request :: "string \<Rightarrow> string \<Rightarrow> request" where
  "model_request base token = key_request base ''GET'' ''/v1/models'' token NoBody"

text \<open>One round over the pending indices: those whose key is not answered 200.\<close>

fun check_round :: "'w world \<Rightarrow> string \<Rightarrow> string list \<Rightarrow> nat list \<Rightarrow> 'w \<Rightarrow> nat list \<times> 'w" where
  "check_round W base wanted [] w = ([], w)"
| "check_round W base wanted (i # is) w =
     (case http W (model_request base (wanted ! i)) w of
        ((status, raw), w1) \<Rightarrow>
          (case check_round W base wanted is w1 of
             (nxt, w2) \<Rightarrow> (if status \<noteq> 200 then i # nxt else nxt, w2)))"

partial_function (option) check_loop ::
  "'w world \<Rightarrow> string \<Rightarrow> string list \<Rightarrow> rat \<Rightarrow> nat list \<Rightarrow> 'w \<Rightarrow> (nat list \<times> 'w) option" where
  "check_loop W base wanted deadline pending w =
     (if pending = [] then Some ([], w)
      else
        (let (nxt, w1) = check_round W base wanted pending w in
         if nxt = [] \<or> deadline < wd_time W w1 then Some (nxt, w1)
         else check_loop W base wanted deadline nxt (wd_sleep W 2 w1)))"

definition check :: "'w world \<Rightarrow> string \<Rightarrow> string list \<Rightarrow> rat \<Rightarrow> 'w \<Rightarrow> (int res \<times> 'w) option" where
  "check W base wanted seconds w =
     (case wait_ready W base 120 w of
        None \<Rightarrow> None
      | Some (ready, w1) \<Rightarrow>
          if \<not> ready then Some (Inl not_ready, w1)
          else
            (case check_loop W base wanted (wd_time W w1 + seconds) [0..<length wanted] w1 of
               None \<Rightarrow> None
             | Some (pending, w2) \<Rightarrow>
                 Some (if pending \<noteq> []
                       then Inl (SystemExitMsg (int_str (int (length pending)) @ ''/'' @ int_str (int (length wanted))
                              @ '' khoa cu KHONG goi duoc''))
                       else Inr 0, w2)))"

subsection \<open>main\<close>

text \<open>The exit code and what is written to stdout.\<close>

definition keys_main ::
  "'w world \<Rightarrow> files \<Rightarrow> files \<Rightarrow> string list \<Rightarrow> 'w \<Rightarrow> ((int \<times> string) res \<times> 'w) option" where
  "keys_main W env fs argv w =
     (if length argv < 3 then Some (Inr (2, []), w)
      else if argv ! 1 = ''extract''
      then Some (rbind (extract_keys fs (drop 2 argv)) (\<lambda>ks. Inr (0, wanted_text ks)), w)
      else case fs (argv ! 2) of
        None \<Rightarrow> Some (Inl OtherError, w)
      | Some text \<Rightarrow>
          (let wanted = read_wanted text; base = base_url env;
               quiet = map_option (\<lambda>(r, w'). (rbind r (\<lambda>c. Inr (c, [])), w')) in
           if wanted = [] then Some (Inl (SystemExitMsg ''danh sach khoa can giu rong''), w)
           else if argv ! 1 = ''sync'' then
             (let mgmt = strip (case env ''CLIPROXY_MGMT_KEY'' of None \<Rightarrow> [] | Some v \<Rightarrow> v) in
              if mgmt = [] then Some (Inl (SystemExitMsg ''thieu CLIPROXY_MGMT_KEY''), w)
              else quiet (sync W base wanted mgmt w))
           else if argv ! 1 = ''check'' then
             (case parse_float (case env ''PGSTORE_KEYS_CHECK_SECONDS'' of None \<Rightarrow> ''60'' | Some v \<Rightarrow> v) of
                None \<Rightarrow> Some (Inl (ValueError ''could not convert string to float''), w)
              | Some (Fin seconds) \<Rightarrow> quiet (check W base wanted seconds w)
              | Some _ \<Rightarrow> Some (Inl OutOfSchema, w))
           else Some (Inr (2, []), w)))"

subsection \<open>Waiting ends\<close>

text \<open>The law of the clock: it never runs back, and \<open>sleep(s)\<close> takes at least \<open>s\<close> seconds.\<close>

definition clock_runs :: "'w world \<Rightarrow> bool" where
  "clock_runs W =
     ((\<forall>rq w. wd_time W w \<le> wd_time W (snd (wd_server W rq w)))
      \<and> (\<forall>s w. wd_time W w + s \<le> wd_time W (wd_sleep W s w)))"

lemma http_time: "clock_runs W \<Longrightarrow> wd_time W w \<le> wd_time W (snd (http W rq w))"
  unfolding clock_runs_def http_def by (auto split: prod.split answer.split) (metis snd_conv)+

lemma sleep_time: "clock_runs W \<Longrightarrow> wd_time W w + s \<le> wd_time W (wd_sleep W s w)"
  by (simp add: clock_runs_def)

lemma wait_loop_ends:
  assumes "clock_runs W" and "deadline - wd_time W w \<le> 2 * of_nat n"
  shows "\<exists>r w'. wait_loop W rq deadline w = Some (r, w')"
  using assms(2)
proof (induction n arbitrary: w)
  case 0
  then show ?case by (subst wait_loop.simps) (auto intro: exI [of _ False])
next
  case (Suc n)
  obtain a w1 where h: "http W rq w = (a, w1)" by (cases "http W rq w")
  have "wd_time W w \<le> wd_time W w1" using http_time [OF assms(1), of w rq] h by simp
  then have "deadline - wd_time W (wd_sleep W 2 w1) \<le> 2 * of_nat n"
    using Suc.prems sleep_time [OF assms(1), of w1 2] by (simp add: algebra_simps)
  from Suc.IH [OF this] show ?case by (subst wait_loop.simps) (auto simp: h)
qed

lemma check_round_time:
  "clock_runs W \<Longrightarrow> wd_time W w \<le> wd_time W (snd (check_round W base wanted is w))"
proof (induction W base wanted "is" w rule: check_round.induct)
  case (2 W base wanted i "is" w)
  obtain c raw w1 where h: "http W (model_request base (wanted ! i)) w = ((c, raw), w1)"
    by (metis prod.exhaust)
  have "wd_time W w \<le> wd_time W w1" using http_time [OF "2.prems", of w] h by (metis snd_conv)
  moreover have "wd_time W w1 \<le> wd_time W (snd (check_round W base wanted is w1))"
    using "2.IH" [OF h [symmetric] refl "2.prems"] .
  ultimately show ?case by (simp add: h split_beta)
qed simp

lemma check_loop_ends:
  assumes "clock_runs W" and "deadline - wd_time W w < 2 * of_nat n"
  shows "\<exists>r w'. check_loop W base wanted deadline pending w = Some (r, w')"
  using assms(2)
proof (induction n arbitrary: w pending)
  case 0
  obtain nxt w1 where c: "check_round W base wanted pending w = (nxt, w1)" by force
  have "deadline < wd_time W w1" using 0 check_round_time [OF assms(1), of w base wanted pending] c by simp
  then show ?case by (subst check_loop.simps) (simp add: c)
next
  case (Suc n)
  obtain nxt w1 where c: "check_round W base wanted pending w = (nxt, w1)" by force
  have "wd_time W w \<le> wd_time W w1" using check_round_time [OF assms(1), of w base wanted pending] c by simp
  then have "deadline - wd_time W (wd_sleep W 2 w1) < 2 * of_nat n"
    using Suc.prems sleep_time [OF assms(1), of w1 2] by (simp add: algebra_simps)
  from Suc.IH [OF this] show ?case by (subst check_loop.simps) (auto simp: c)
qed

lemma rat_below_even: "\<exists>n. (q :: rat) < 2 * of_nat n"
proof -
  obtain n where "q < of_nat n" using reals_Archimedean2 by blast
  then have "q < 2 * of_nat n" using of_nat_0_le_iff [of n, where 'a = rat] by linarith
  then show ?thesis by blast
qed

lemma wait_ready_ends: "clock_runs W \<Longrightarrow> \<exists>r w'. wait_ready W base seconds w = Some (r, w')"
  unfolding wait_ready_def using wait_loop_ends rat_below_even [of "wd_time W w + seconds - wd_time W w"]
  by (metis less_imp_le)

lemma sync_ends: "clock_runs W \<Longrightarrow> \<exists>r w'. sync W base wanted mgmt w = Some (r, w')"
  using wait_ready_ends [of W base 120 w] by (force simp: sync_def)

lemma check_ends: "clock_runs W \<Longrightarrow> \<exists>r w'. check W base wanted seconds w = Some (r, w')"
proof -
  assume c: "clock_runs W"
  obtain ready w1 where r: "wait_ready W base 120 w = Some (ready, w1)" using wait_ready_ends [OF c] by metis
  obtain n where "seconds < 2 * of_nat n" using rat_below_even by blast
  then obtain p w2 where "check_loop W base wanted (wd_time W w1 + seconds) [0..<length wanted] w1 = Some (p, w2)"
    using check_loop_ends [OF c, of "wd_time W w1 + seconds" w1 n] by fastforce
  with r show ?thesis by (simp add: check_def)
qed


subsection \<open>sync only adds\<close>

text \<open>The requests \<open>sync\<close> may send: reads, and the addition of a wanted key.\<close>

definition sync_sends :: "string \<Rightarrow> string \<Rightarrow> string list \<Rightarrow> request \<Rightarrow> bool" where
  "sync_sends base mgmt wanted rq =
     (ht_method rq = ''GET'' \<or> rq \<in> set (map (add_request base mgmt) wanted))"

lemma sync_sends_simps [simp]:
  "sync_sends base mgmt wanted (present_request base mgmt)"
  "sync_sends base mgmt wanted (probe_request base)"
  "k \<in> set wanted \<Longrightarrow> sync_sends base mgmt wanted (add_request base mgmt k)"
  by (simp_all add: sync_sends_def present_request_def probe_request_def key_request_def)

lemma http_keeps: "frame W sent P \<Longrightarrow> sent rq \<Longrightarrow> P w \<Longrightarrow> http W rq w = (a, w') \<Longrightarrow> P w'"
  by (cases "wd_server W rq w") (auto simp: http_def split: answer.splits dest: keeps_server)

lemma present_keys_keeps:
  assumes "frame W (sync_sends base mgmt wanted) P"
  shows "keeps P (present_keys W base mgmt)"
  unfolding keeps_def present_keys_def using http_keeps [OF assms sync_sends_simps(1)]
  by (auto split: prod.split)

lemma add_key_keeps:
  assumes "frame W (sync_sends base mgmt wanted) P" "snd ik \<in> set wanted"
  shows "keeps P (add_key_action W base mgmt ik)"
  unfolding keeps_def add_key_action_def using http_keeps [OF assms(1) sync_sends_simps(3) [OF assms(2)]]
  by (auto split: prod.split)

lemma sync_ready_keeps:
  assumes "frame W (sync_sends base mgmt wanted) P"
  shows "keeps P (sync_ready W base wanted mgmt)"
proof -
  have "keeps P (amap (add_key_action W base mgmt) (filter Q (enumerate 0 wanted)))" for Q
    by (rule keeps_amap) (auto simp: in_set_enumerate_eq intro!: add_key_keeps [OF assms])
  then show ?thesis
    unfolding sync_ready_def Let_def using present_keys_keeps [OF assms]
    by (intro keeps_abind) (auto split: if_split)
qed

lemma wait_loop_keeps:
  "wait_loop W rq deadline w = Some y \<Longrightarrow> frame W sent P \<Longrightarrow> sent rq \<Longrightarrow> P w \<Longrightarrow> P (snd y)"
proof (induction rule: wait_loop.raw_induct [rotated, consumes 1, case_names turn])
  case (turn again W rq deadline w y)
  obtain a w1 where h: "http W rq w = (a, w1)" by (cases "http W rq w")
  have p: "P w1" by (rule http_keeps [OF turn.prems h])
  then have "P (wd_sleep W 2 w1)" using turn.prems(1) by (simp add: frame_def)
  then show ?case
    using turn.hyps turn.IH turn.prems h p by (auto split: if_splits)
qed

lemma sync_keeps:
  assumes "frame W (sync_sends base mgmt wanted) P" and "P w"
    and "sync W base wanted mgmt w = Some (r, w')"
  shows "P w'"
proof -
  obtain ready w1 where r: "wait_ready W base 120 w = Some (ready, w1)"
    and rest: "(if ready then sync_ready W base wanted mgmt w1 else (Inl not_ready, w1)) = (r, w')"
    using assms(3) by (auto simp: sync_def split: option.splits)
  have "P w1"
    using wait_loop_keeps [OF r [unfolded wait_ready_def] assms(1) _ assms(2)] by simp
  then show ?thesis
    using rest keeps_D [OF sync_ready_keeps [OF assms(1)]] by (auto split: if_splits)
qed

text \<open>C16: Whatever the proxy answers, and wherever \<open>sync\<close> ends, all it has sent is reads and the addition of
  keys it was asked to keep; it asks for the removal of none.\<close>

theorem sync_only_adds:
  assumes "sync (logged W) base wanted mgmt (w, []) = Some (r, (w', sent))"
  shows "list_all (sync_sends base mgmt wanted) sent"
  using sync_keeps [OF frame_logged _ assms] by simp

subsection \<open>sync on a proxy that keeps its word\<close>

text \<open>The documented behaviour of the Management API: \<open>keys_of\<close> is what the proxy holds; reading lists it,
  adding a key appends it unless it is there, asking for models or waiting changes nothing.\<close>

definition lists_keys :: "string \<Rightarrow> string list \<Rightarrow> bool" where
  "lists_keys raw ks =
     (case loads_bytes raw of
        Inr (JObj d) \<Rightarrow> dget d ''api-keys'' JNull = JArr (map JStr ks)
      | _ \<Rightarrow> False)"

definition proxy_api :: "'w world \<Rightarrow> string \<Rightarrow> string \<Rightarrow> string list \<Rightarrow> ('w \<Rightarrow> string list) \<Rightarrow> bool" where
  "proxy_api W base mgmt wanted keys_of =
     ((\<forall>w. answers (wd_server W (present_request base mgmt) w)
         (\<lambda>c raw w'. c = 200 \<and> lists_keys raw (keys_of w) \<and> keys_of w' = keys_of w))
      \<and> (\<forall>w. list_all (\<lambda>k. answers (wd_server W (add_request base mgmt k) w)
         (\<lambda>c raw w'. c = 200 \<and> keys_of w' = add_new k (keys_of w))) wanted)
      \<and> (\<forall>w. answers (wd_server W (probe_request base) w) (\<lambda>c raw w'. c \<noteq> 0 \<and> keys_of w' = keys_of w))
      \<and> (\<forall>w s. keys_of (wd_sleep W s w) = keys_of w))"

lemma proxy_present:
  assumes "proxy_api W base mgmt wanted keys_of"
  obtains w' where "present_keys W base mgmt w = (Inr (map JStr (keys_of w)), w')" "keys_of w' = keys_of w"
proof -
  have "answers (wd_server W (present_request base mgmt) w)
      (\<lambda>c raw w'. c = 200 \<and> lists_keys raw (keys_of w) \<and> keys_of w' = keys_of w)"
    using assms by (simp add: proxy_api_def)
  then show thesis
  proof (rule answers_E)
    fix c raw w'
    assume a: "wd_server W (present_request base mgmt) w = (Answer c raw, w')"
      "c = 200 \<and> lists_keys raw (keys_of w) \<and> keys_of w' = keys_of w"
    then have "read_present c raw = Inr (map JStr (keys_of w))"
      by (auto simp: read_present_def lists_keys_def jget_def py_list_def split: sum.splits json.splits)
    with a that show thesis by (simp add: present_keys_def http_def)
  qed
qed

lemma proxy_adds:
  assumes "proxy_api W base mgmt wanted keys_of" and "snd ` set iks \<subseteq> set wanted"
  shows "\<exists>rs w'. amap (add_key_action W base mgmt) iks w = (Inr rs, w')
    \<and> keys_of w' = add_all_new (map snd iks) (keys_of w)"
  using assms(2)
proof (induction iks arbitrary: w)
  case (Cons ik iks)
  have "answers (wd_server W (add_request base mgmt (snd ik)) w)
      (\<lambda>c raw w'. c = 200 \<and> keys_of w' = add_new (snd ik) (keys_of w))"
    using assms(1) Cons.prems by (simp add: proxy_api_def list_all_iff)
  then obtain raw w1 where s: "wd_server W (add_request base mgmt (snd ik)) w = (Answer 200 raw, w1)"
    "keys_of w1 = add_new (snd ik) (keys_of w)"
    by (rule answers_E) auto
  then have a: "add_key_action W base mgmt ik w = (Inr (), w1)" by (simp add: add_key_action_def http_def)
  from Cons.IH [of w1] Cons.prems obtain rs w2 where "amap (add_key_action W base mgmt) iks w1 = (Inr rs, w2)"
    "keys_of w2 = add_all_new (map snd iks) (keys_of w1)" by auto
  with a s(2) show ?case by simp
qed simp

lemma add_all_new_missing:
  "add_all_new (filter (\<lambda>k. k \<notin> set out) ks) out = add_all_new ks out"
proof -
  have "set out \<subseteq> set o2 \<Longrightarrow> add_all_new (filter (\<lambda>k. k \<notin> set out) ks) o2 = add_all_new ks o2" for o2
  proof (induction ks arbitrary: o2)
    case (Cons k ks)
    show ?case
    proof (cases "k \<in> set out")
      case True
      with Cons.prems have "add_new k o2 = o2" by (auto simp: add_new_def)
      with True Cons show ?thesis by simp
    next
      case False
      have "set out \<subseteq> set (add_new k o2)" using Cons.prems by auto
      with False Cons.IH show ?thesis by simp
    qed
  qed simp
  then show ?thesis by simp
qed

lemma map_snd_filter_enumerate: "map snd (filter (\<lambda>(i, k). Q k) (enumerate n xs)) = filter Q xs"
  by (induction xs arbitrary: n) auto

lemma sync_once:
  assumes "proxy_api W base mgmt wanted keys_of"
  shows "\<exists>w'. sync W base wanted mgmt w = Some (Inr 0, w') \<and> keys_of w' = add_all_new wanted (keys_of w)"
proof -
  have "answers (wd_server W (probe_request base) w) (\<lambda>c raw w'. c \<noteq> 0 \<and> keys_of w' = keys_of w)"
    using assms by (simp add: proxy_api_def)
  then obtain c raw w1 where s: "wd_server W (probe_request base) w = (Answer c raw, w1)" "c \<noteq> 0"
    "keys_of w1 = keys_of w" by (rule answers_E) auto
  then have ready: "wait_ready W base 120 w = Some (True, w1)"
    unfolding wait_ready_def by (subst wait_loop.simps) (simp add: http_def)
  obtain w2 where p1: "present_keys W base mgmt w1 = (Inr (map JStr (keys_of w)), w2)" "keys_of w2 = keys_of w"
    using proxy_present [OF assms, of w1] s(3) by metis
  let ?missing = "filter (\<lambda>k. k \<notin> set (keys_of w)) wanted"
  let ?iks = "filter (\<lambda>(idx, k). k \<in> set ?missing) (enumerate 0 wanted)"
  have "snd ` set ?iks \<subseteq> set wanted" by auto
  from proxy_adds [OF assms this, of w2] obtain rs w3
    where a: "amap (add_key_action W base mgmt) ?iks w2 = (Inr rs, w3)"
      "keys_of w3 = add_all_new (map snd ?iks) (keys_of w)" using p1(2) by auto
  have "map snd ?iks = ?missing"
    unfolding map_snd_filter_enumerate by (rule filter_cong) auto
  then have k3: "keys_of w3 = add_all_new wanted (keys_of w)" by (simp add: a(2) add_all_new_missing)
  obtain w4 where p2: "present_keys W base mgmt w3 = (Inr (map JStr (keys_of w3)), w4)" "keys_of w4 = keys_of w3"
    using proxy_present [OF assms, of w3] by metis
  have "sync_ready W base wanted mgmt w1 = (Inr 0, w4)"
    using p1(1) a(1) p2(1) k3 by (simp add: sync_ready_def Let_def image_iff)
  with ready p2(2) k3 show ?thesis by (simp add: sync_def)
qed

text \<open>C15: On a proxy that behaves as documented \<open>sync\<close> succeeds, and the proxy then holds what it held, in
  place, followed by the wanted keys it lacked; run again, it succeeds again and changes nothing.\<close>

theorem sync_keeps_all_keys:
  assumes "proxy_api W base mgmt wanted keys_of"
  shows "\<exists>w1 w2. sync W base wanted mgmt w = Some (Inr 0, w1) \<and> keys_of w1 = add_all_new wanted (keys_of w)
    \<and> sync W base wanted mgmt w1 = Some (Inr 0, w2) \<and> keys_of w2 = keys_of w1"
proof -
  obtain w1 where 1: "sync W base wanted mgmt w = Some (Inr 0, w1)" "keys_of w1 = add_all_new wanted (keys_of w)"
    using sync_once [OF assms, of w] by blast
  moreover obtain w2 where "sync W base wanted mgmt w1 = Some (Inr 0, w2)"
    "keys_of w2 = add_all_new wanted (keys_of w1)" using sync_once [OF assms, of w1] by blast
  ultimately show ?thesis by (simp add: add_all_new_absorb)
qed

subsection \<open>check\<close>

lemma reaches_http: "reaches W w w1 \<Longrightarrow> http W rq w1 = (a, w2) \<Longrightarrow> reaches W w w2"
  using reaches.request [of W w w1 rq] by (auto simp: http_def split: prod.splits answer.splits)

text \<open>Between \<open>w\<close> and \<open>w'\<close> the proxy answered 200 to a request for models with the key \<open>k\<close>.\<close>

definition served :: "'w world \<Rightarrow> string \<Rightarrow> 'w \<Rightarrow> 'w \<Rightarrow> string \<Rightarrow> bool" where
  "served W base w w' k =
     (\<exists>w1 raw w2. reaches W w w1 \<and> wd_server W (model_request base k) w1 = (Answer 200 raw, w2) \<and> reaches W w2 w')"

lemma served_wider: "served W base w1 w2 k \<Longrightarrow> reaches W w w1 \<Longrightarrow> reaches W w2 w' \<Longrightarrow> served W base w w' k"
  unfolding served_def by (meson reaches_trans)

lemma check_round_served:
  "check_round W base wanted is w = (nxt, w') \<Longrightarrow>
   reaches W w w' \<and> set nxt \<subseteq> set is \<and> (\<forall>i \<in> set is - set nxt. served W base w w' (wanted ! i))"
proof (induction "is" arbitrary: w nxt)
  case Nil
  then show ?case by (simp add: reaches.here)
next
  case (Cons i "is")
  obtain c raw w1 where h: "http W (model_request base (wanted ! i)) w = ((c, raw), w1)" by (metis prod.exhaust)
  obtain nxt' where r: "check_round W base wanted is w1 = (nxt', w')"
    and n: "nxt = (if c \<noteq> 200 then i # nxt' else nxt')"
    using Cons.prems by (auto simp: h split: prod.splits)
  note IH = Cons.IH [OF r]
  have w1: "reaches W w w1" by (rule reaches_http [OF reaches.here h])
  have "served W base w w' (wanted ! i)" if "c = 200"
  proof -
    have "wd_server W (model_request base (wanted ! i)) w = (Answer 200 raw, w1)"
      using h that by (auto simp: http_def split: prod.splits answer.splits)
    with IH show ?thesis unfolding served_def by (blast intro: reaches.here)
  qed
  with IH w1 n show ?case
    by (auto intro: reaches_trans served_wider [OF _ w1 reaches.here] split: if_splits)
qed

lemma wait_loop_reaches: "wait_loop W rq deadline w = Some y \<Longrightarrow> reaches W w (snd y)"
proof (induction rule: wait_loop.raw_induct [rotated, consumes 1, case_names turn])
  case (turn again W rq deadline w y)
  obtain a w1 where h: "http W rq w = (a, w1)" by (cases "http W rq w")
  have "reaches W w w1" by (rule reaches_http [OF reaches.here h])
  moreover from this have "reaches W w (wd_sleep W 2 w1)" by (rule reaches.slept)
  ultimately have a: "reaches W w w1" "reaches W w (wd_sleep W 2 w1)" .
  consider "y = (False, w)" | "y = (True, w1)" | "again W rq deadline (wd_sleep W 2 w1) = Some y"
    using turn.hyps h by (cases "wd_time W w < deadline"; cases "fst a = 0") auto
  then show ?case
  proof cases
    case 3
    show ?thesis by (rule reaches_trans [OF turn.IH [OF 3] a(2)])
  qed (use a in \<open>auto intro: reaches.here\<close>)
qed

lemma check_loop_served:
  "check_loop W base wanted deadline pending w = Some y \<Longrightarrow>
   reaches W w (snd y) \<and> (\<forall>i \<in> set pending - set (fst y). served W base w (snd y) (wanted ! i))"
proof (induction rule: check_loop.raw_induct [rotated, consumes 1, case_names turn])
  case (turn again W base wanted deadline pending w y)
  obtain nxt w1 where r: "check_round W base wanted pending w = (nxt, w1)" by force
  note round = check_round_served [OF r]
  show ?case
  proof (cases "pending = [] \<or> nxt = [] \<or> deadline < wd_time W w1")
    case True
    then have "(pending = [] \<and> y = ([], w)) \<or> y = (nxt, w1)" using turn.hyps r by (auto split: if_splits)
    with round show ?thesis by (auto intro: reaches.here)
  next
    case False
    let ?w = "wd_sleep W 2 w1"
    have "again W base wanted deadline nxt ?w = Some y" using turn.hyps r False by simp
    from turn.IH [OF this] have IH: "reaches W ?w (snd y)"
      "\<forall>i \<in> set nxt - set (fst y). served W base ?w (snd y) (wanted ! i)" by simp_all
    have w: "reaches W w1 ?w" "reaches W w ?w"
      using round by (auto intro: reaches.slept reaches.here)
    have "reaches W w1 (snd y)" "reaches W w (snd y)" using IH(1) w by (blast intro: reaches_trans)+
    moreover have "served W base w (snd y) (wanted ! i)" if i: "i \<in> set pending - set (fst y)" for i
    proof (cases "i \<in> set nxt")
      case True
      then have "served W base ?w (snd y) (wanted ! i)" using IH(2) i by simp
      then show ?thesis using w(2) reaches.here by (rule served_wider)
    next
      case False
      then have "served W base w w1 (wanted ! i)" using round i by simp
      then show ?thesis using reaches.here calculation(1) by (rule served_wider)
    qed
    ultimately show ?thesis by blast
  qed
qed

text \<open>C18: When \<open>check\<close> succeeds the proxy has answered 200 to every wanted key during that very run.\<close>

theorem check_sound:
  assumes "check W base wanted seconds w = Some (Inr c, w')"
  shows "c = 0 \<and> list_all (served W base w w') wanted"
proof -
  obtain w1 pending where r: "wait_ready W base 120 w = Some (True, w1)" and c: "c = 0"
    and l: "check_loop W base wanted (wd_time W w1 + seconds) [0..<length wanted] w1 = Some (pending, w')"
    and p: "pending = []"
    using assms by (auto simp: check_def split: option.splits if_splits prod.splits)
  have "reaches W w w1" using wait_loop_reaches [OF r [unfolded wait_ready_def]] by simp
  then have "served W base w w' (wanted ! i)" if "i < length wanted" for i
  proof -
    have "served W base w1 w' (wanted ! i)" using check_loop_served [OF l] that p by simp
    then show ?thesis using \<open>reaches W w w1\<close> reaches.here by (rule served_wider)
  qed
  with c show ?thesis by (simp add: list_all_length)
qed

subsection \<open>A proxy\<close>

definition sample_keys :: "bool \<times> rat \<Rightarrow> string list" where
  "sample_keys w = (if fst w then [''k1'', ''k2''] else [''k1''])"

definition sample_body :: "bool \<Rightarrow> string" where
  "sample_body b = dumps (JObj [(''api-keys'', JArr (map JStr (sample_keys (b, 0))))])"

definition sample_proxy :: "(bool \<times> rat) world" where
  "sample_proxy =
     \<lparr>wd_server = (\<lambda>rq w.
        if ht_method rq = ''PATCH'' then (Answer 200 [], (True, snd w))
        else if ht_url rq = ''/v0/management/api-keys'' then (Answer 200 (sample_body (fst w)), w)
        else if ht_token rq = ''Bearer k2'' then (Answer 200 [], w)
        else (Answer 401 [], w)),
      wd_time = snd, wd_sleep = (\<lambda>s w. (fst w, snd w + s))\<rparr>"

lemma sample_proxy_simps:
  "wd_time sample_proxy = snd" "wd_sleep sample_proxy s w = (fst w, snd w + s)"
  "http sample_proxy (present_request [] ''m'') w = ((200, sample_body (fst w)), w)"
  "http sample_proxy (probe_request []) w = ((401, []), w)"
  "http sample_proxy (add_request [] ''m'' k) w = ((200, []), (True, snd w))"
  "http sample_proxy (model_request [] ''k2'') w = ((200, []), w)"
  by (simp_all add: sample_proxy_def http_def present_request_def probe_request_def add_request_def model_request_def
      key_request_def)

lemma sample_logged_simps:
  "wd_time (logged sample_proxy) v = snd (fst v)"
  "wd_sleep (logged sample_proxy) s v = (wd_sleep sample_proxy s (fst v), snd v)"
  "http (logged sample_proxy) (present_request [] ''m'') v
    = ((200, sample_body (fst (fst v))), (fst v, snd v @ [present_request [] ''m'']))"
  "http (logged sample_proxy) (probe_request []) v = ((401, []), (fst v, snd v @ [probe_request []]))"
  "http (logged sample_proxy) (add_request [] ''m'' k) v
    = ((200, []), ((True, snd (fst v)), snd v @ [add_request [] ''m'' k]))"
  by (simp_all add: logged_def sample_proxy_def http_def present_request_def probe_request_def add_request_def
      key_request_def split_beta)

lemma sample_body_lists: "lists_keys (sample_body b) (sample_keys (b, t))"
proof -
  have "lists_keys (sample_body b) (sample_keys (b, 0))" by (cases b; simp only:) code_simp+
  then show ?thesis by (simp add: sample_keys_def)
qed

lemma sample_proxy_api: "proxy_api sample_proxy [] ''m'' [''k2''] sample_keys"
  using sample_body_lists
  by (auto simp: proxy_api_def answers_def sample_proxy_def present_request_def add_request_def probe_request_def
      key_request_def sample_keys_def add_new_def)

lemma sample_clock: "clock_runs sample_proxy"
  by (auto simp: clock_runs_def sample_proxy_def)


theorem sync_keeps_all_keys_witness:
  "\<exists>w'. sync sample_proxy [] [''k2''] ''m'' (False, 0) = Some (Inr 0, w') \<and> sample_keys w' = [''k1'', ''k2'']"
proof -
  obtain w' where "sync sample_proxy [] [''k2''] ''m'' (False, 0) = Some (Inr 0, w')"
    "sample_keys w' = add_all_new [''k2''] (sample_keys (False, 0))"
    using sync_keeps_all_keys [OF sample_proxy_api, of "(False, 0)"] by blast
  then show ?thesis by (intro exI [of _ w']) (simp add: sample_keys_def add_new_def)
qed

theorem sync_only_adds_witness:
  "list_all (sync_sends [] ''m'' [''k2''])
     [probe_request [], present_request [] ''m'', add_request [] ''m'' ''k2'', present_request [] ''m'']"
proof -
  have r: "read_present 200 (sample_body False) = Inr [JStr ''k1'']"
    "read_present 200 (sample_body True) = Inr [JStr ''k1'', JStr ''k2'']" by code_simp+
  have "sync (logged sample_proxy) [] [''k2''] ''m'' ((False, 0), []) = Some (Inr 0, ((True, 0),
      [probe_request [], present_request [] ''m'', add_request [] ''m'' ''k2'', present_request [] ''m'']))"
    by (simp add: sync_def wait_ready_def wait_loop.simps [of "logged sample_proxy"] sync_ready_def present_keys_def
        add_key_action_def sample_logged_simps abind_def r)
  then show ?thesis by (rule sync_only_adds)
qed

theorem check_sound_witness: "served sample_proxy [] (True, 0) (True, 0) ''k2''"
proof -
  have "check sample_proxy [] [''k2''] 60 (True, 0) = Some (Inr 0, (True, 0))"
    by (simp add: check_def wait_ready_def wait_loop.simps [of sample_proxy] check_loop.simps [of sample_proxy]
        sample_proxy_simps)
  from check_sound [OF this] show ?thesis by simp
qed

end
