(* ===== verification/PluginConfig.thy ===== *)
theory PluginConfig
  imports ClientKeys Rewrite
begin

text \<open>
  The edit that turns the plugin on in the proxy's configuration, \<open>cliproxy/plugin-config.py\<close>: \<open>_find\<close>,
  \<open>_block_end\<close>, \<open>merge\<close> and \<open>main\<close>. An index that is not found (-1 in the code) is \<open>None\<close>.
\<close>

definition PLUGIN :: string where
  "PLUGIN = ''deepseek-web-go''"

definition is_content :: "string \<Rightarrow> bool" where
  "is_content line = (\<not> comment_or_blank (strip line))"

definition find_line :: "string list \<Rightarrow> nat \<Rightarrow> nat \<Rightarrow> string \<Rightarrow> nat \<Rightarrow> nat option" where
  "find_line lines start stop text indent =
     find (\<lambda>i. indent_of (lines ! i) = indent \<and> strip (lines ! i) = text) [start..<stop]"

definition block_end :: "string list \<Rightarrow> nat \<Rightarrow> nat \<Rightarrow> nat" where
  "block_end lines start indent =
     (case find (\<lambda>i. is_content (lines ! i) \<and> indent_of (lines ! i) \<le> indent) [start..<length lines] of
        None \<Rightarrow> length lines | Some i \<Rightarrow> i)"

text \<open>\<open>lines[i:i] = xs\<close>.\<close>

definition insert_at :: "string list \<Rightarrow> nat \<Rightarrow> string list \<Rightarrow> string list" where
  "insert_at lines i xs = take i lines @ xs @ drop i lines"

definition plugin_line :: string where
  "plugin_line = ''    '' @ PLUGIN @ '':''"

definition enabled_line :: string where
  "enabled_line = ''      enabled: true''"

definition merge_lines :: "string list \<Rightarrow> string list" where
  "merge_lines lines =
     (case find_line lines 0 (length lines) ''plugins:'' 0 of
        None \<Rightarrow>
          (let lines1 = (if lines \<noteq> [] \<and> strip (last lines) \<noteq> [] then lines @ [[]] else lines) in
           lines1 @ [''plugins:'', ''  enabled: true'', ''  configs:'', plugin_line, enabled_line])
      | Some plugins \<Rightarrow>
          (let plugins_end = block_end lines (plugins + 1) 0 in
           case find_line lines (plugins + 1) plugins_end ''configs:'' 2 of
             None \<Rightarrow> insert_at lines plugins_end [''  configs:'', plugin_line, enabled_line]
           | Some configs \<Rightarrow>
               (let configs_end = block_end lines (configs + 1) 2 in
                case find_line lines (configs + 1) configs_end (PLUGIN @ '':'') 4 of
                  Some plugin \<Rightarrow>
                    (let plugin_end = block_end lines (plugin + 1) 4 in
                     case find_line lines (plugin + 1) plugin_end ''enabled: true'' 6 of
                       Some enabled \<Rightarrow> lines
                     | None \<Rightarrow>
                         (case find_line lines (plugin + 1) plugin_end ''enabled: false'' 6 of
                            Some enabled \<Rightarrow> lines[enabled := enabled_line]
                          | None \<Rightarrow> insert_at lines (plugin + 1) [enabled_line]))
                | None \<Rightarrow> insert_at lines configs_end [plugin_line, enabled_line])))"

definition merge :: "string \<Rightarrow> string" where
  "merge text = join [NL] (merge_lines (splitlines text)) @ [NL]"

text \<open>\<open>main\<close>: the file it writes, if any.\<close>

definition plugin_main :: "files \<Rightarrow> string list \<Rightarrow> (string \<times> string) option res" where
  "plugin_main fs argv =
     (if length argv \<noteq> 2 then Inl (SystemExitMsg ''dung: plugin-config.py <config.yaml>'')
      else case fs (argv ! 1) of
        None \<Rightarrow> Inl OtherError
      | Some text \<Rightarrow> Inr (if merge text = text then None else Some (argv ! 1, merge text)))"

subsection \<open>Finding lines\<close>

definition line_at :: "string \<Rightarrow> nat \<Rightarrow> string \<Rightarrow> bool" where
  "line_at text indent line = (indent_of line = indent \<and> strip line = text)"

definition ends_block :: "nat \<Rightarrow> string \<Rightarrow> bool" where
  "ends_block indent line = (is_content line \<and> indent_of line \<le> indent)"

lemma find_upt_Some:
  "find P [a..<b] = Some k \<longleftrightarrow> a \<le> k \<and> k < b \<and> P k \<and> (\<forall>j. a \<le> j \<and> j < k \<longrightarrow> \<not> P j)"
proof -
  have "find P [a..<b] = Some k \<longleftrightarrow>
      (\<exists>i. i < b - a \<and> P (a + i) \<and> k = a + i \<and> (\<forall>j < i. \<not> P (a + j)))"
    by (auto simp: find_Some_iff)
  also have "\<dots> \<longleftrightarrow> a \<le> k \<and> k < b \<and> P k \<and> (\<forall>j. a \<le> j \<and> j < k \<longrightarrow> \<not> P j)"
    by (auto intro!: exI [of _ "k - a"]) (metis le_add_diff_inverse nat_add_left_cancel_less)
  finally show ?thesis .
qed

lemma find_line_Some:
  "find_line ls a b text n = Some k \<longleftrightarrow>
   a \<le> k \<and> k < b \<and> line_at text n (ls ! k) \<and> (\<forall>j. a \<le> j \<and> j < k \<longrightarrow> \<not> line_at text n (ls ! j))"
  by (simp add: find_line_def find_upt_Some line_at_def)

lemma find_line_None:
  "find_line ls a b text n = None \<longleftrightarrow> (\<forall>j. a \<le> j \<and> j < b \<longrightarrow> \<not> line_at text n (ls ! j))"
  by (auto simp: find_line_def find_None_iff line_at_def)

lemma block_end_before: "j < block_end ls s n \<Longrightarrow> s \<le> j \<Longrightarrow> j < length ls \<and> \<not> ends_block n (ls ! j)"
  by (auto simp: block_end_def find_upt_Some find_None_iff ends_block_def split: option.splits)

lemma block_end_le: "s \<le> length ls \<Longrightarrow> s \<le> block_end ls s n \<and> block_end ls s n \<le> length ls"
  by (auto simp: block_end_def find_upt_Some split: option.split)

lemma block_end_beyond:
  "k < length ls \<Longrightarrow> \<forall>j. s \<le> j \<and> j \<le> k \<longrightarrow> \<not> ends_block n (ls ! j) \<Longrightarrow> k < block_end ls s n"
  by (auto simp: block_end_def find_upt_Some ends_block_def not_less [symmetric] split: option.split)

text \<open>A file in which the plugin is on: the four lines, each the first of its kind in the block of the one before.\<close>

definition settled_at :: "string list \<Rightarrow> nat \<Rightarrow> nat \<Rightarrow> nat \<Rightarrow> nat \<Rightarrow> bool" where
  "settled_at ls p c g e =
     (p < c \<and> c < g \<and> g < e \<and> e < length ls
      \<and> line_at ''plugins:'' 0 (ls ! p) \<and> (\<forall>j<p. \<not> line_at ''plugins:'' 0 (ls ! j))
      \<and> line_at ''configs:'' 2 (ls ! c) \<and> (\<forall>j. p < j \<and> j < c \<longrightarrow> \<not> line_at ''configs:'' 2 (ls ! j))
      \<and> line_at (PLUGIN @ '':'') 4 (ls ! g) \<and> (\<forall>j. c < j \<and> j < g \<longrightarrow> \<not> line_at (PLUGIN @ '':'') 4 (ls ! j))
      \<and> line_at ''enabled: true'' 6 (ls ! e)
      \<and> (\<forall>j. p < j \<and> j \<le> c \<longrightarrow> \<not> ends_block 0 (ls ! j))
      \<and> (\<forall>j. c < j \<and> j \<le> g \<longrightarrow> \<not> ends_block 2 (ls ! j))
      \<and> (\<forall>j. g < j \<and> j \<le> e \<longrightarrow> \<not> ends_block 4 (ls ! j)))"

lemma settled_merge:
  assumes "settled_at ls p c g e"
  shows "merge_lines ls = ls"
proof -
  have p: "find_line ls 0 (length ls) ''plugins:'' 0 = Some p"
    using assms by (auto simp: settled_at_def find_line_Some)
  have "c < block_end ls (p + 1) 0" by (rule block_end_beyond) (use assms in \<open>auto simp: settled_at_def\<close>)
  then have c: "find_line ls (p + 1) (block_end ls (p + 1) 0) ''configs:'' 2 = Some c"
    using assms by (auto simp: settled_at_def find_line_Some)
  have "g < block_end ls (c + 1) 2" by (rule block_end_beyond) (use assms in \<open>auto simp: settled_at_def\<close>)
  then have g: "find_line ls (c + 1) (block_end ls (c + 1) 2) (PLUGIN @ '':'') 4 = Some g"
    using assms by (auto simp: settled_at_def find_line_Some)
  have "e < block_end ls (g + 1) 4" by (rule block_end_beyond) (use assms in \<open>auto simp: settled_at_def\<close>)
  then have "find_line ls (g + 1) (block_end ls (g + 1) 4) ''enabled: true'' 6 \<noteq> None"
    using assms by (auto simp: settled_at_def find_line_None)
  then show ?thesis unfolding merge_lines_def p option.case Let_def c g by auto
qed

lemma line_ends_block: "line_at text n line \<Longrightarrow> text \<noteq> [] \<Longrightarrow> hd text \<noteq> CHR ''#'' \<Longrightarrow> ends_block m line \<longleftrightarrow> n \<le> m"
  by (auto simp: line_at_def ends_block_def is_content_def comment_or_blank_def)

lemma new_lines:
  "line_at ''plugins:'' 0 ''plugins:''" "line_at ''configs:'' 2 ''  configs:''"
  "line_at (PLUGIN @ '':'') 4 plugin_line" "line_at ''enabled: true'' 6 enabled_line"
  "line_at ''enabled: true'' 2 ''  enabled: true''"
  by (code_simp, code_simp, code_simp, code_simp, code_simp)

lemma line_at_unique: "line_at t n l \<Longrightarrow> line_at t' n' l \<longleftrightarrow> t = t' \<and> n = n'"
  by (auto simp: line_at_def)

subsection \<open>Merging settles\<close>

lemma new_line_ends:
  "ends_block n ''plugins:''" "ends_block n ''  configs:'' \<longleftrightarrow> 2 \<le> n" "ends_block n plugin_line \<longleftrightarrow> 4 \<le> n"
  "ends_block n enabled_line \<longleftrightarrow> 6 \<le> n" "ends_block n ''  enabled: true'' \<longleftrightarrow> 2 \<le> n"
proof -
  have e: "PLUGIN @ '':'' \<noteq> []" "hd (PLUGIN @ '':'') \<noteq> CHR ''#''" by (simp_all add: PLUGIN_def)
  show "ends_block n ''plugins:''" "ends_block n ''  configs:'' \<longleftrightarrow> 2 \<le> n" "ends_block n plugin_line \<longleftrightarrow> 4 \<le> n"
    "ends_block n enabled_line \<longleftrightarrow> 6 \<le> n" "ends_block n ''  enabled: true'' \<longleftrightarrow> 2 \<le> n"
    using line_ends_block [OF new_lines(1)] line_ends_block [OF new_lines(2)]
      line_ends_block [OF new_lines(3) e] line_ends_block [OF new_lines(4)] line_ends_block [OF new_lines(5)]
    by simp_all
qed

lemma line_at_new:
  "line_at t n ''plugins:'' \<longleftrightarrow> t = ''plugins:'' \<and> n = 0"
  "line_at t n ''  configs:'' \<longleftrightarrow> t = ''configs:'' \<and> n = 2"
  "line_at t n plugin_line \<longleftrightarrow> t = PLUGIN @ '':'' \<and> n = 4"
  "line_at t n enabled_line \<longleftrightarrow> t = ''enabled: true'' \<and> n = 6"
  "line_at t n ''  enabled: true'' \<longleftrightarrow> t = ''enabled: true'' \<and> n = 2"
  using line_at_unique [OF new_lines(1)] line_at_unique [OF new_lines(2)] line_at_unique [OF new_lines(3)]
    line_at_unique [OF new_lines(4)] line_at_unique [OF new_lines(5)] by auto

lemma line_at_blank: "line_at t n [] \<longleftrightarrow> t = [] \<and> n = 0"
  by (auto simp: line_at_def indent_of_def strip_eq_self)

lemma insert_at_nth:
  "i \<le> length ls \<Longrightarrow> j < length ls + length xs \<Longrightarrow>
   insert_at ls i xs ! j = (if j < i then ls ! j else if j < i + length xs then xs ! (j - i) else ls ! (j - length xs))"
  by (auto simp: insert_at_def nth_append min_def)

lemma length_insert_at [simp]: "length (insert_at ls i xs) = length ls + length xs"
  by (simp add: insert_at_def)

lemma nth_three: "j < 3 \<Longrightarrow> [a, b, c] ! j = (if j = 0 then a else if j = 1 then b else c)"
  for j :: nat
  by (auto simp: less_Suc_eq numeral_3_eq_3)

definition settled :: "string list \<Rightarrow> bool" where
  "settled ls = (\<exists>p c g e. settled_at ls p c g e)"

lemma merge_settles: "settled (merge_lines ls)"
proof (cases "find_line ls 0 (length ls) ''plugins:'' 0")
  case None
  let ?l = "if ls \<noteq> [] \<and> strip (last ls) \<noteq> [] then ls @ [[]] else ls"
  have m: "merge_lines ls = ?l @ [''plugins:'', ''  enabled: true'', ''  configs:'', plugin_line, enabled_line]"
    by (simp add: merge_lines_def None)
  have n: "\<not> line_at ''plugins:'' 0 (?l ! j)" if "j < length ?l" for j
    using None that by (auto simp: find_line_None nth_append line_at_blank less_Suc_eq)
  let ?n = "length ?l"
  have "settled_at (merge_lines ls) ?n (?n + 2) (?n + 3) (?n + 4)"
    unfolding m settled_at_def
    using n by (auto simp: nth_append line_at_new new_line_ends less_Suc_eq numeral_2_eq_2 numeral_3_eq_3 le_Suc_eq
        simp del: if_split split: if_split)
  then show ?thesis unfolding settled_def by blast
next
  case (Some p)
  note P = Some [unfolded find_line_Some]
  let ?pe = "block_end ls (p + 1) 0"
  have pe: "p < ?pe" "?pe \<le> length ls" using block_end_le [of "p + 1" ls 0] P by simp_all
  have pn: "\<not> ends_block 0 (ls ! j)" if "p < j" "j < ?pe" for j
    using block_end_before [OF that(2)] that(1) by simp
  show ?thesis
  proof (cases "find_line ls (p + 1) ?pe ''configs:'' 2")
    case None
    have m: "merge_lines ls = insert_at ls ?pe [''  configs:'', plugin_line, enabled_line]"
      unfolding merge_lines_def Some option.case Let_def None ..
    have "settled_at (merge_lines ls) p ?pe (?pe + 1) (?pe + 2)"
      unfolding m settled_at_def using P pe pn None [unfolded find_line_None]
      by (auto simp: insert_at_nth nth_three line_at_new new_line_ends)
    then show ?thesis unfolding settled_def by blast
  next
    case c: (Some c)
    note C = c [unfolded find_line_Some]
    let ?ce = "block_end ls (c + 1) 2"
    have pc: "p < c" "c < length ls" using C pe(2) by auto
    have ce: "c < ?ce" "?ce \<le> length ls" using block_end_le [of "c + 1" ls 2] pc by simp_all
    have cn: "\<not> ends_block 2 (ls ! j)" if "c < j" "j < ?ce" for j
      using block_end_before [OF that(2)] that(1) by simp
    show ?thesis
    proof (cases "find_line ls (c + 1) ?ce (PLUGIN @ '':'') 4")
      case None
      have m: "merge_lines ls = insert_at ls ?ce [plugin_line, enabled_line]"
        unfolding merge_lines_def Some option.case Let_def c None ..
      have n: "insert_at ls ?ce [plugin_line, enabled_line] ! j = ls ! j" if "j < ?ce" for j
        using that ce by (simp add: insert_at_nth)
      have n2: "insert_at ls ?ce [plugin_line, enabled_line] ! ?ce = plugin_line"
        "insert_at ls ?ce [plugin_line, enabled_line] ! Suc ?ce = enabled_line"
        using ce by (simp_all add: insert_at_nth)
      have le: "j \<le> ?ce \<longleftrightarrow> j < ?ce \<or> j = ?ce" for j by auto
      have "settled_at (merge_lines ls) p c ?ce (?ce + 1)"
        unfolding m settled_at_def using P C pc ce cn pn None [unfolded find_line_None] n2
        by (auto simp: n [folded Suc_eq_plus1] n2 [folded Suc_eq_plus1] line_at_new new_line_ends le [folded Suc_eq_plus1] le_Suc_eq)
      then show ?thesis unfolding settled_def by blast
    next
      case g: (Some g)
      note G = g [unfolded find_line_Some]
      let ?ge = "block_end ls (g + 1) 4"
      have cg: "c < g" "g < length ls" using G ce(2) by auto
      have ge: "g < ?ge" "?ge \<le> length ls" using block_end_le [of "g + 1" ls 4] cg by simp_all
      have gn: "\<not> ends_block 4 (ls ! j)" if "g < j" "j < ?ge" for j
        using block_end_before [OF that(2)] that(1) by simp
      have base: "line_at ''plugins:'' 0 (ls ! p)" "\<And>j. j < p \<Longrightarrow> \<not> line_at ''plugins:'' 0 (ls ! j)"
        "line_at ''configs:'' 2 (ls ! c)" "\<And>j. p < j \<Longrightarrow> j < c \<Longrightarrow> \<not> line_at ''configs:'' 2 (ls ! j)"
        "line_at (PLUGIN @ '':'') 4 (ls ! g)" "\<And>j. c < j \<Longrightarrow> j < g \<Longrightarrow> \<not> line_at (PLUGIN @ '':'') 4 (ls ! j)"
        "\<And>j. p < j \<Longrightarrow> j \<le> c \<Longrightarrow> \<not> ends_block 0 (ls ! j)" "\<And>j. c < j \<Longrightarrow> j \<le> g \<Longrightarrow> \<not> ends_block 2 (ls ! j)"
        using P C G pn cn by auto
      show ?thesis
      proof (cases "find_line ls (g + 1) ?ge ''enabled: true'' 6")
        case (Some e)
        then have m: "merge_lines ls = ls"
          unfolding merge_lines_def \<open>find_line ls 0 (length ls) ''plugins:'' 0 = Some p\<close> option.case Let_def c g by simp
        have "settled_at ls p c g e"
          using Some [unfolded find_line_Some] base pc cg ge gn by (auto simp: settled_at_def)
        then show ?thesis unfolding m settled_def by blast
      next
        case None
        show ?thesis
        proof (cases "find_line ls (g + 1) ?ge ''enabled: false'' 6")
          case f: (Some e)
          have m: "merge_lines ls = ls[e := enabled_line]"
            unfolding merge_lines_def Some option.case Let_def c g None f ..
          have "settled_at (merge_lines ls) p c g e"
            unfolding m settled_at_def using f [unfolded find_line_Some] base pc cg ge gn
            by (auto simp: nth_list_update line_at_new new_line_ends)
          then show ?thesis unfolding settled_def by blast
        next
          case f: None
          have m: "merge_lines ls = insert_at ls (g + 1) [enabled_line]"
            unfolding merge_lines_def Some option.case Let_def c g None f ..
          have "settled_at (merge_lines ls) p c g (g + 1)"
            unfolding m settled_at_def using base pc cg
            by (auto simp: insert_at_nth line_at_new new_line_ends le_Suc_eq)
          then show ?thesis unfolding settled_def by blast
        qed
      qed
    qed
  qed
qed

text \<open>What an edit may do to the lines: insert some at one place, or change one \<open>enabled: false\<close>.\<close>

definition inserted_lines :: "string list" where
  "inserted_lines = [[], ''plugins:'', ''  enabled: true'', ''  configs:'', plugin_line, enabled_line]"

lemma merge_lines_edits:
  "(\<exists>i xs. i \<le> length ls \<and> set xs \<subseteq> set inserted_lines \<and> merge_lines ls = insert_at ls i xs)
   \<or> (\<exists>e. e < length ls \<and> line_at ''enabled: false'' 6 (ls ! e) \<and> merge_lines ls = ls[e := enabled_line])"
proof -
  have nil: "ls = insert_at ls 0 []" "set [] \<subseteq> set inserted_lines" by (simp_all add: insert_at_def)
  have app: "ls @ xs = insert_at ls (length ls) xs" for xs by (simp add: insert_at_def)
  show ?thesis
  proof (cases "find_line ls 0 (length ls) ''plugins:'' 0")
    case None
    have "\<exists>xs. set xs \<subseteq> set inserted_lines \<and> merge_lines ls = ls @ xs"
      by (simp add: merge_lines_def None inserted_lines_def)
    then show ?thesis using app by (metis order_refl)
  next
    case (Some p)
    have pe: "block_end ls (p + 1) 0 \<le> length ls"
      using block_end_le [of "p + 1" ls 0] Some [unfolded find_line_Some] by simp
    show ?thesis
    proof (cases "find_line ls (p + 1) (block_end ls (p + 1) 0) ''configs:'' 2")
      case None
      have "merge_lines ls = insert_at ls (block_end ls (p + 1) 0) [''  configs:'', plugin_line, enabled_line]"
        unfolding merge_lines_def Some option.case Let_def None ..
      moreover have "set [''  configs:'', plugin_line, enabled_line] \<subseteq> set inserted_lines"
        by (simp add: inserted_lines_def)
      ultimately show ?thesis using pe by blast
    next
      case c: (Some c)
      have cl: "c < length ls" using c [unfolded find_line_Some] pe by simp
      then have ce: "block_end ls (c + 1) 2 \<le> length ls" using block_end_le [of "c + 1" ls 2] by simp
      show ?thesis
      proof (cases "find_line ls (c + 1) (block_end ls (c + 1) 2) (PLUGIN @ '':'') 4")
        case None
        have "merge_lines ls = insert_at ls (block_end ls (c + 1) 2) [plugin_line, enabled_line]"
          unfolding merge_lines_def Some option.case Let_def c None ..
        moreover have "set [plugin_line, enabled_line] \<subseteq> set inserted_lines" by (simp add: inserted_lines_def)
        ultimately show ?thesis using ce by blast
      next
        case g: (Some g)
        have gl: "g < length ls" using g [unfolded find_line_Some] ce by simp
        then have ge: "block_end ls (g + 1) 4 \<le> length ls" using block_end_le [of "g + 1" ls 4] by simp
        note m = merge_lines_def [of ls, unfolded Some option.case Let_def c g]
        show ?thesis
        proof (cases "find_line ls (g + 1) (block_end ls (g + 1) 4) ''enabled: true'' 6")
          case None
          note m' = m [unfolded None option.case]
          show ?thesis
          proof (cases "find_line ls (g + 1) (block_end ls (g + 1) 4) ''enabled: false'' 6")
            case f: None
            have "set [enabled_line] \<subseteq> set inserted_lines" by (simp add: inserted_lines_def)
            with m' [unfolded f option.case] gl show ?thesis by (metis Suc_eq_plus1 Suc_leI)
          next
            case f: (Some e)
            then have "e < length ls" "line_at ''enabled: false'' 6 (ls ! e)" using ge by (simp_all add: find_line_Some)
            with m' [unfolded f option.case] show ?thesis by blast
          qed
        next
          case t: (Some e)
          from m [unfolded t option.case] nil show ?thesis by (metis le0)
        qed
      qed
    qed
  qed
qed

lemma merge_lines_unbroken: "\<forall>l \<in> set ls. unbroken l \<Longrightarrow> \<forall>l \<in> set (merge_lines ls). unbroken l"
proof -
  have u: "\<forall>l \<in> set inserted_lines. unbroken l"
    by (simp add: inserted_lines_def plugin_line_def enabled_line_def PLUGIN_def is_linebreak_def)
  have ins: "set (insert_at ls i xs) \<subseteq> set ls \<union> set xs" for i xs
    by (auto simp: insert_at_def dest: in_set_takeD in_set_dropD)
  have upd: "set (ls[e := enabled_line]) \<subseteq> insert enabled_line (set ls)" for e
    by (rule set_update_subset_insert)
  have e: "enabled_line \<in> set inserted_lines" by (simp add: inserted_lines_def)
  assume a: "\<forall>l \<in> set ls. unbroken l"
  from merge_lines_edits [of ls] show ?thesis
  proof
    assume "\<exists>i xs. i \<le> length ls \<and> set xs \<subseteq> set inserted_lines \<and> merge_lines ls = insert_at ls i xs"
    with a u ins show ?thesis by (metis Un_iff subsetD)
  next
    assume "\<exists>e. e < length ls \<and> line_at ''enabled: false'' 6 (ls ! e) \<and> merge_lines ls = ls[e := enabled_line]"
    with a u upd e show ?thesis by (metis insert_iff subsetD)
  qed
qed

lemma splitlines_merge: "splitlines (merge text) = merge_lines (splitlines text)"
proof -
  have "merge_lines (splitlines text) \<noteq> []"
    using merge_settles [of "splitlines text"] by (auto simp: settled_def settled_at_def)
  moreover have "\<forall>l \<in> set (merge_lines (splitlines text)). unbroken l"
    by (rule merge_lines_unbroken) (use splitlines_unbroken in auto)
  ultimately show ?thesis unfolding merge_def by (rule splitlines_join_NL)
qed

text \<open>C36: After the edit the plugin is on, in the first \<open>configs\<close> block of the first \<open>plugins\<close> block; the edit
  inserts lines at one place or turns one \<open>enabled: false\<close> of the plugin on, and leaves every other line
  and their order alone.\<close>

theorem merge_turns_on:
  "settled (splitlines (merge text))
   \<and> ((\<exists>i xs. set xs \<subseteq> set inserted_lines \<and> splitlines (merge text) = insert_at (splitlines text) i xs)
      \<or> (\<exists>e. line_at ''enabled: false'' 6 (splitlines text ! e)
           \<and> splitlines (merge text) = (splitlines text)[e := enabled_line]))"
  using merge_settles [of "splitlines text"] merge_lines_edits [of "splitlines text"]
  unfolding splitlines_merge by blast

lemma merge_merge: "merge (merge text) = merge text"
  using merge_settles [of "splitlines text"] settled_merge
  by (auto simp: settled_def merge_def [of "merge text"] splitlines_merge) (simp add: merge_def)

interpretation on: stable_rewrite "\<lambda>_::unit. True" "\<lambda>_ text. Inr (merge text)"
  by unfold_locales (auto simp: merge_merge)

text \<open>Running the edit again, any number of times, changes nothing, and \<open>main\<close> on the edited file writes
  nothing.\<close>

theorem merge_stable:
  "rerun (Suc n) (\<lambda>text. Inr (merge text)) text = Inr (merge text)
   \<and> plugin_main (\<lambda>p. Some (merge text)) [a, p] = Inr None"
  using on.rerun_once [of "Suc n" "text"] by (simp add: plugin_main_def merge_merge)

end
