(* ===== verification/QuotaFailover.thy ===== *)
theory QuotaFailover
  imports ClientKeys Http Rewrite
begin

text \<open>
  The order of the Claude accounts set over the management API, \<open>cliproxy/quota-failover.py\<close>: \<open>call\<close>,
  \<open>must\<close>, \<open>find_email\<close>, the retry settings, the edit of the configuration text, and \<open>main\<close>. What is
  printed is not modelled. \<open>urlopen\<close> without an answer raises \<open>URLError\<close> here: \<open>call\<close> does not catch it.
\<close>

subsection \<open>Requests\<close>

definition env_req :: "files \<Rightarrow> string \<Rightarrow> string res" where
  "env_req env name =
     (let v = strip (case env name of None \<Rightarrow> [] | Some v \<Rightarrow> v) in
      if v = [] then Inl (SystemExitMsg (''thieu bien '' @ name)) else Inr v)"

record api =
  ap_base :: string
  ap_mgmt :: string

definition api_request :: "api \<Rightarrow> string \<Rightarrow> string \<Rightarrow> body \<Rightarrow> request" where
  "api_request ap method path body =
     \<lparr>ht_method = method, ht_url = ap_base ap @ ''/v0/management'' @ path, ht_token = ''Bearer '' @ ap_mgmt ap,
      ht_body = body\<rparr>"

definition call :: "'w world \<Rightarrow> request \<Rightarrow> (int \<times> string, 'w) action" where
  "call W rq w =
     (case wd_server W rq w of
        (Answer c raw, w') \<Rightarrow> (Inr (c, raw), w')
      | (NoAnswer, w') \<Rightarrow> (Inl URLError, w'))"

definition must_result :: "string \<Rightarrow> string \<Rightarrow> int \<Rightarrow> string \<Rightarrow> string res" where
  "must_result method path status raw =
     (if status = 401 \<or> status = 403
      then Inl (SystemExitMsg (method @ '' '' @ path @ '' -> HTTP '' @ int_str status
             @ '': management key sai hoac remote bi tat''))
      else if status < 200 \<or> 300 \<le> status
      then Inl (SystemExitMsg (method @ '' '' @ path @ '' -> HTTP '' @ int_str status @ '' '' @ repr_bytes (take 300 raw)))
      else Inr raw)"

definition must :: "'w world \<Rightarrow> api \<Rightarrow> string \<Rightarrow> string \<Rightarrow> body \<Rightarrow> (string, 'w) action" where
  "must W ap method path body =
     abind (call W (api_request ap method path body)) (\<lambda>(status, raw). alift (must_result method path status raw))"

subsection \<open>Retry settings\<close>

definition read_int_setting :: "'w world \<Rightarrow> api \<Rightarrow> string \<Rightarrow> string \<Rightarrow> (int option, 'w) action" where
  "read_int_setting W ap path key =
     abind (call W (api_request ap ''GET'' path NoBody)) (\<lambda>(status, raw).
       if status < 200 \<or> 300 \<le> status then aret None
       else
         (case rbind (loads_bytes raw) (\<lambda>j. jget j key JNull) of
            Inl (ValueError _) \<Rightarrow> aret None
          | Inl AttributeError \<Rightarrow> aret None
          | Inl e \<Rightarrow> araise e
          | Inr v \<Rightarrow>
              aret (case v of JInt i \<Rightarrow> Some i | JBool b \<Rightarrow> Some (if b then 1 else 0) | _ \<Rightarrow> None)))"

definition RETRY_SETTINGS :: "(string \<times> int) list" where
  "RETRY_SETTINGS = [(''max-retry-interval'', 0), (''max-retry-credentials'', 0)]"

definition value_body :: "json \<Rightarrow> body" where
  "value_body v = JsonBody (JObj [(''value'', v)])"

definition apply_retry :: "'w world \<Rightarrow> api \<Rightarrow> string \<times> int \<Rightarrow> (string \<times> int option \<times> int, 'w) action" where
  "apply_retry W ap kw =
     (let key = fst kw; want = snd kw; path = ''/'' @ key in
      abind (read_int_setting W ap path key) (\<lambda>before.
      abind (must W ap ''PUT'' path (value_body (JInt want))) (\<lambda>_.
      abind (read_int_setting W ap path key) (\<lambda>after.
        if after \<noteq> None \<and> after \<noteq> Some want
        then araise (SystemExitMsg (key @ '' van la '' @ int_str (the after) @ '' sau khi dat '' @ int_str want))
        else aret (key, before, want)))))"

definition apply_retry_settings :: "'w world \<Rightarrow> api \<Rightarrow> ((string \<times> int option \<times> int) list, 'w) action" where
  "apply_retry_settings W ap = amap (apply_retry W ap) RETRY_SETTINGS"

subsection \<open>The configuration text\<close>

text \<open>\<open>s.split(":", 1)[1].split("#", 1)[0].strip().lower()\<close>.\<close>

definition setting_value :: "string \<Rightarrow> string" where
  "setting_value s =
     lower (strip (fst (split1 ''#'' (case snd (split1 '':'' s) of None \<Rightarrow> [] | Some v \<Rightarrow> v))))"

definition routing_after :: "bool \<Rightarrow> string \<Rightarrow> bool" where
  "routing_after in_routing line =
     (if indent_of line = 0 \<and> \<not> comment_or_blank (strip line)
      then starts_with ''routing:'' (strip line) else in_routing)"

definition affinity_on :: "bool \<Rightarrow> string \<Rightarrow> bool" where
  "affinity_on in_routing line =
     (in_routing \<and> 0 < indent_of line \<and> starts_with ''session-affinity:'' (strip line)
      \<and> setting_value (strip line) = ''true'')"

definition affinity_off_line :: "string \<Rightarrow> string" where
  "affinity_off_line line = take (indent_of line) line @ ''session-affinity: false''"

text \<open>The loop, with \<open>in_routing\<close>: the new lines, and \<open>changed\<close>.\<close>

fun affinity_lines :: "bool \<Rightarrow> string list \<Rightarrow> string list \<times> bool" where
  "affinity_lines in_routing [] = ([], False)"
| "affinity_lines in_routing (line # ls) =
     (let r = routing_after in_routing line; (out, changed) = affinity_lines r ls in
      if affinity_on r line then (affinity_off_line line # out, True) else (line # out, changed))"

definition set_session_affinity_false :: "string \<Rightarrow> string \<times> bool" where
  "set_session_affinity_false t =
     (relines (\<lambda>ls. fst (affinity_lines False ls)) t, snd (affinity_lines False (splitlines t)))"

subsection \<open>main\<close>

definition find_email :: "json \<Rightarrow> string res" where
  "find_email entry =
     (case entry of
        JObj d \<Rightarrow>
          Inr (case somes (map (\<lambda>k. case dget d k JNull of
                  JStr s \<Rightarrow> if CHR ''@'' \<in> set s then Some s else None | _ \<Rightarrow> None)
                [''email'', ''label'', ''account'']) of
             [] \<Rightarrow> [] | v # _ \<Rightarrow> lower (strip v))
      | _ \<Rightarrow> Inl AttributeError)"

type_synonym targets = "(string \<times> int) list"

text \<open>\<open>targets\<close> of the environment, with the priority of each email; the last of two equal emails counts.\<close>

definition parse_priority :: "string \<Rightarrow> int res" where
  "parse_priority s =
     (case parse_int s of None \<Rightarrow> Inl (ValueError ''invalid literal for int() with base 10'') | Some i \<Rightarrow> Inr i)"

definition read_targets :: "files \<Rightarrow> targets res" where
  "read_targets env =
     rbind (env_req env ''PRIMARY_EMAIL'') (\<lambda>e1.
     rbind (rbind (env_req env ''PRIMARY_PRIORITY'') parse_priority) (\<lambda>p1.
     rbind (env_req env ''BACKUP_EMAIL'') (\<lambda>e2.
     rbind (rbind (env_req env ''BACKUP_PRIORITY'') parse_priority) (\<lambda>p2.
       Inr (AList.update (lower e2) p2 [(lower e1, p1)])))))"

definition provider_of :: "jobj \<Rightarrow> string" where
  "provider_of d =
     lower (strip (py_str (py_or (py_or (dget d ''provider'' JNull) (dget d ''type'' JNull)) (JStr []))))"

definition fields_body :: "json \<Rightarrow> int \<Rightarrow> body" where
  "fields_body name priority =
     JsonBody (JObj [(''name'', name), (''priority'', JInt priority), (''weight'', JInt 1)])"

definition enable_body :: "json \<Rightarrow> body" where
  "enable_body name = JsonBody (JObj [(''name'', name), (''disabled'', JBool False)])"

text \<open>One turn of the loop over the files: the email and name of a file that was changed.\<close>

definition update_file :: "'w world \<Rightarrow> api \<Rightarrow> targets \<Rightarrow> json \<Rightarrow> ((string \<times> json) option, 'w) action" where
  "update_file W ap targets f =
     (case f of
        JObj d \<Rightarrow>
          (if provider_of d \<noteq> [] \<and> provider_of d \<noteq> ''claude'' then aret None
           else
             abind (alift (find_email f)) (\<lambda>email.
             case map_of targets email of
               None \<Rightarrow> aret None
             | Some priority \<Rightarrow>
                 (let name = py_or (dget d ''name'' JNull) (dget d ''id'' JNull) in
                  abind (must W ap ''PATCH'' ''/auth-files/fields'' (fields_body name priority)) (\<lambda>_.
                  abind (if truthy (dget d ''disabled'' JNull)
                         then must W ap ''PATCH'' ''/auth-files/status'' (enable_body name)
                         else aret []) (\<lambda>_.
                  aret (Some (email, name)))))))
      | _ \<Rightarrow> araise AttributeError)"

definition check_changed :: "targets \<Rightarrow> (string \<times> json) list \<Rightarrow> unit res" where
  "check_changed targets changed =
     (let missing = filter (\<lambda>e. e \<notin> fst ` set changed) (map fst targets) in
      if missing \<noteq> [] then Inl (SystemExitMsg (''missing target emails: '' @ join '', '' (sort missing)))
      else if length changed < 2 then Inl (SystemExitMsg ''expected at least two changed Claude auth files'')
      else Inr ())"

definition update_accounts :: "'w world \<Rightarrow> api \<Rightarrow> targets \<Rightarrow> ((string \<times> json) list, 'w) action" where
  "update_accounts W ap targets =
     abind (must W ap ''GET'' ''/auth-files'' NoBody) (\<lambda>raw.
     abind (alift (rbind (loads_bytes raw) (\<lambda>j. rbind (jget j ''files'' JNull) py_list))) (\<lambda>files.
     abind (amap (update_file W ap targets) files) (\<lambda>cs.
     abind (alift (check_changed targets (somes cs))) (\<lambda>_. aret (somes cs)))))"

definition update_config :: "'w world \<Rightarrow> api \<Rightarrow> (bool, 'w) action" where
  "update_config W ap =
     abind (must W ap ''GET'' ''/config.yaml'' NoBody) (\<lambda>raw.
     abind (alift (utf8_decode raw)) (\<lambda>cfg.
     let (new, did) = set_session_affinity_false cfg in
     if did
     then abind (must W ap ''PUT'' ''/config.yaml'' (RawBody ''application/yaml'' (utf8_encode new))) (\<lambda>_. aret True)
     else aret False))"

definition quota_run :: "'w world \<Rightarrow> api \<Rightarrow> targets \<Rightarrow> (int, 'w) action" where
  "quota_run W ap targets =
     abind (update_accounts W ap targets) (\<lambda>_.
     abind (must W ap ''PUT'' ''/quota-exceeded/switch-project'' (value_body (JBool True))) (\<lambda>_.
     abind (must W ap ''PUT'' ''/quota-exceeded/switch-preview-model'' (value_body (JBool True))) (\<lambda>_.
     abind (apply_retry_settings W ap) (\<lambda>_.
     abind (update_config W ap) (\<lambda>_. aret 0)))))"

definition quota_main :: "'w world \<Rightarrow> files \<Rightarrow> (int, 'w) action" where
  "quota_main W env =
     abind (alift (env_req env ''CLIPROXY_BASE_URL'')) (\<lambda>base.
     abind (alift (env_req env ''CLIPROXY_MGMT_KEY'')) (\<lambda>mgmt.
     abind (alift (read_targets env)) (\<lambda>targets.
     quota_run W \<lparr>ap_base = rstrip_char (CHR ''/'') base, ap_mgmt = mgmt\<rparr> targets)))"

subsection \<open>The edit of the text\<close>

lemma takeWhile_spaces: "take (indent_of line) line = replicate (indent_of line) (CHR '' '')"
  by (induction line) (auto simp: indent_of_def)

lemma affinity_off_facts:
  "indent_of (affinity_off_line line) = indent_of line"
  "strip (affinity_off_line line) = ''session-affinity: false''"
proof -
  have l: "affinity_off_line line = replicate (indent_of line) (CHR '' '') @ ''session-affinity: false''"
    by (simp add: affinity_off_line_def takeWhile_spaces)
  have "takeWhile (\<lambda>c. c = CHR '' '') (replicate n (CHR '' '') @ ''session-affinity: false'') = replicate n (CHR '' '')" for n
    by (induction n) simp_all
  then show "indent_of (affinity_off_line line) = indent_of line" by (simp add: l indent_of_def)
  have "lstrip (affinity_off_line line) = lstrip ''session-affinity: false''"
    unfolding l by (rule lstrip_append_strip) (simp add: is_space_def)
  then have "strip (affinity_off_line line) = strip ''session-affinity: false''" by (simp add: strip_def)
  also have "\<dots> = ''session-affinity: false''" by code_simp
  finally show "strip (affinity_off_line line) = ''session-affinity: false''" .
qed

lemma affinity_off_settled:
  assumes "affinity_on r line"
  shows "\<not> affinity_on r' (affinity_off_line line)"
    and "routing_after r' (affinity_off_line line) = routing_after r' line"
proof -
  have "setting_value ''session-affinity: false'' = ''false''" by code_simp
  then show "\<not> affinity_on r' (affinity_off_line line)" by (simp add: affinity_on_def affinity_off_facts)
  show "routing_after r' (affinity_off_line line) = routing_after r' line"
    using assms by (simp add: routing_after_def affinity_on_def affinity_off_facts)
qed

lemma affinity_lines_again:
  "affinity_lines r (fst (affinity_lines r ls)) = (fst (affinity_lines r ls), False)"
proof (induction ls arbitrary: r)
  case (Cons line ls)
  show ?case
  proof (cases "affinity_on (routing_after r line) line")
    case True
    with Cons affinity_off_settled [OF True] show ?thesis by (simp add: split_beta Let_def)
  next
    case False
    with Cons show ?thesis by (simp add: split_beta Let_def)
  qed
qed simp

lemma affinity_lines_pairs:
  "list_all2 (\<lambda>old new. new = old
     \<or> (starts_with ''session-affinity:'' (strip old) \<and> setting_value (strip old) = ''true''
        \<and> new = affinity_off_line old))
     ls (fst (affinity_lines r ls))"
  by (induction ls arbitrary: r) (auto simp: split_beta Let_def affinity_on_def)

lemma affinity_lines_snoc: "fst (affinity_lines r (ls @ [[]])) = fst (affinity_lines r ls) @ [[]]"
  by (induction ls arbitrary: r) (auto simp: split_beta Let_def affinity_on_def strip_eq_self)

lemma affinity_lines_facts:
  "\<forall>l \<in> set (fst (affinity_lines r (splitlines t))). unbroken l"
  "fst (affinity_lines r (splitlines t)) = [] \<longleftrightarrow> t = []"
proof -
  have "\<forall>l \<in> set ls. unbroken l \<Longrightarrow> \<forall>l \<in> set (fst (affinity_lines r ls)). unbroken l" for ls
  proof (induction ls arbitrary: r)
    case (Cons line ls)
    have "unbroken (affinity_off_line line)" using Cons.prems
      by (auto simp: affinity_off_line_def is_linebreak_def unbroken_def dest: in_set_takeD)
    with Cons show ?case by (auto simp: split_beta Let_def)
  qed simp
  then show "\<forall>l \<in> set (fst (affinity_lines r (splitlines t))). unbroken l" using splitlines_unbroken by blast
  have "length (fst (affinity_lines r ls)) = length ls" for ls
    using affinity_lines_pairs [of ls r] by (simp add: list_all2_lengthD)
  then show "fst (affinity_lines r (splitlines t)) = [] \<longleftrightarrow> t = []"
    by (metis length_0_conv splitlines_Nil_iff)
qed

lemma relines_affinity:
  defines "g \<equiv> \<lambda>ls. fst (affinity_lines False ls)"
  shows "relines g (relines g t) = relines g t"
    and "splitlines (relines g t) = g (splitlines t) \<or> g (splitlines t) = splitlines (relines g t) @ [[]]"
proof -
  have again: "g (g ls) = g ls" for ls unfolding g_def by (simp add: affinity_lines_again)
  have drop: "g ks = ks" if "g (splitlines t) = ks @ [[]]" for ks
    using again [of "splitlines t"] that affinity_lines_snoc [of False ks] by (simp add: g_def)
  note f = affinity_lines_facts [of False t, folded g_def]
  show "relines g (relines g t) = relines g t"
    by (rule relines_again) (use f again drop in \<open>auto simp: g_def\<close>)
  show "splitlines (relines g t) = g (splitlines t) \<or> g (splitlines t) = splitlines (relines g t) @ [[]]"
    by (rule splitlines_relines) (use f in \<open>auto simp: g_def\<close>)
qed

lemma affinity_again:
  "set_session_affinity_false (fst (set_session_affinity_false t)) = (fst (set_session_affinity_false t), False)"
proof -
  let ?g = "\<lambda>ls. fst (affinity_lines False ls)"
  have "snd (affinity_lines False (splitlines (relines ?g t))) = False"
  proof -
    have s: "snd (affinity_lines False (?g (splitlines t))) = False" by (simp add: affinity_lines_again)
    have sn: "snd (affinity_lines r (ks @ [[]])) = snd (affinity_lines r ks)" for r ks
      by (induction ks arbitrary: r) (auto simp: split_beta Let_def affinity_on_def strip_eq_self)
    from relines_affinity(2) [of t] s sn show ?thesis by metis
  qed
  then show ?thesis using relines_affinity(1) [of t] by (simp add: set_session_affinity_false_def)
qed

interpretation af: stable_rewrite "\<lambda>_::unit. True" "\<lambda>_ t. Inr (fst (set_session_affinity_false t))"
  by unfold_locales (auto simp: affinity_again)

text \<open>After the edit no session affinity is on in the routing block, so that a second run finds nothing to
  change, however often it runs; every line is kept but those that turned affinity on, and these are
  turned off where they stand.\<close>

theorem affinity_turned_off:
  "set_session_affinity_false (fst (set_session_affinity_false t)) = (fst (set_session_affinity_false t), False)
   \<and> rerun (Suc n) (\<lambda>t. Inr (fst (set_session_affinity_false t))) t = Inr (fst (set_session_affinity_false t))
   \<and> list_all2 (\<lambda>old new. new = old
        \<or> (starts_with ''session-affinity:'' (strip old) \<and> setting_value (strip old) = ''true''
           \<and> new = affinity_off_line old))
        (splitlines t) (fst (affinity_lines False (splitlines t)))"
  using affinity_again [of t] af.rerun_once [of "Suc n" t] affinity_lines_pairs by simp

subsection \<open>What it sends\<close>

text \<open>The requests of a run: reads, the priority of a target with weight one, switching an account on, and the
  settings; a new configuration only as an edit of the session affinity.\<close>

inductive quota_sends :: "api \<Rightarrow> targets \<Rightarrow> request \<Rightarrow> bool" for ap targets where
  read: "quota_sends ap targets (api_request ap ''GET'' path NoBody)"
| fields: "pr \<in> snd ` set targets \<Longrightarrow>
    quota_sends ap targets (api_request ap ''PATCH'' ''/auth-files/fields'' (fields_body name pr))"
| enable: "quota_sends ap targets (api_request ap ''PATCH'' ''/auth-files/status'' (enable_body name))"
| project: "quota_sends ap targets (api_request ap ''PUT'' ''/quota-exceeded/switch-project'' (value_body (JBool True)))"
| preview: "quota_sends ap targets (api_request ap ''PUT'' ''/quota-exceeded/switch-preview-model'' (value_body (JBool True)))"
| retry: "(key, want) \<in> set RETRY_SETTINGS \<Longrightarrow> quota_sends ap targets (api_request ap ''PUT'' (''/'' @ key) (value_body (JInt want)))"
| config: "quota_sends ap targets (api_request ap ''PUT'' ''/config.yaml''
    (RawBody ''application/yaml'' (utf8_encode (fst (set_session_affinity_false t)))))"

lemma call_keeps: "frame W sent P \<Longrightarrow> sent rq \<Longrightarrow> keeps P (call W rq)"
  unfolding keeps_def call_def by (auto split: prod.split answer.split dest: keeps_server)

lemma must_keeps:
  assumes f: "frame W sent P" and "sent (api_request ap method path body)"
  shows "keeps P (must W ap method path body)"
  unfolding must_def by (intro keeps_abind call_keeps [OF f assms(2)]) (auto split: prod.split)

lemma read_int_keeps:
  assumes f: "frame W (quota_sends ap targets) P"
  shows "keeps P (read_int_setting W ap path key)"
proof -
  have c: "keeps P (call W (api_request ap ''GET'' path NoBody))"
    using f quota_sends.read by (rule call_keeps)
  show ?thesis
    unfolding read_int_setting_def
    by (intro keeps_abind c) (auto split: prod.split sum.split pyexn.split if_split)
qed

lemma apply_retry_keeps:
  assumes f: "frame W (quota_sends ap targets) P" and "kw \<in> set RETRY_SETTINGS"
  shows "keeps P (apply_retry W ap kw)"
proof -
  have "(fst kw, snd kw) \<in> set RETRY_SETTINGS" using assms(2) by simp
  then have m: "keeps P (must W ap ''PUT'' (''/'' @ fst kw) (value_body (JInt (snd kw))))"
    by (intro must_keeps [OF f] quota_sends.retry)
  show ?thesis
    unfolding apply_retry_def Let_def
    by (intro keeps_abind read_int_keeps [OF f] m) (auto split: if_split)
qed

lemma update_file_keeps:
  assumes f: "frame W (quota_sends ap targets) P"
  shows "keeps P (update_file W ap targets f)"
proof (cases f)
  case (JObj d)
  have m: "keeps P (must W ap ''PATCH'' ''/auth-files/fields'' (fields_body name pr))"
    if "map_of targets e = Some pr" for e name pr
    by (rule must_keeps [OF f quota_sends.fields]) (use that in \<open>force dest: map_of_SomeD\<close>)
  have en: "keeps P (must W ap ''PATCH'' ''/auth-files/status'' (enable_body name))" for name
    by (rule must_keeps [OF f quota_sends.enable])
  show ?thesis
    unfolding update_file_def JObj json.case Let_def
    using m en by (auto intro!: keeps_abind split: if_split option.split)
qed (simp_all add: update_file_def)

lemma update_accounts_keeps:
  assumes f: "frame W (quota_sends ap targets) P"
  shows "keeps P (update_accounts W ap targets)"
  unfolding update_accounts_def
  by (intro keeps_abind keeps_amap must_keeps [OF f quota_sends.read] update_file_keeps [OF f] keeps_pure)

lemma update_config_keeps:
  assumes f: "frame W (quota_sends ap targets) P"
  shows "keeps P (update_config W ap)"
proof -
  have "keeps P (let (new, did) = set_session_affinity_false cfg in
      if did
      then abind (must W ap ''PUT'' ''/config.yaml'' (RawBody ''application/yaml'' (utf8_encode new))) (\<lambda>_. aret True)
      else aret False)" for cfg
    unfolding Let_def split_beta
    by (auto intro!: keeps_abind must_keeps [OF f quota_sends.config] split: if_split)
  then show ?thesis
    unfolding update_config_def by (intro keeps_abind must_keeps [OF f quota_sends.read] keeps_pure)
qed

lemma quota_run_keeps:
  assumes "frame W (quota_sends ap targets) P"
  shows "keeps P (quota_run W ap targets)"
  unfolding quota_run_def apply_retry_settings_def
  by (intro keeps_abind update_accounts_keeps [OF assms] must_keeps [OF assms] keeps_amap apply_retry_keeps [OF assms]
      update_config_keeps [OF assms] quota_sends.intros keeps_pure)

interpretation qr: polite_script "quota_sends ap targets" "\<lambda>W. quota_run W ap targets" for ap targets
  by unfold_locales (rule quota_run_keeps)

text \<open>C23: Whatever the proxy answers and wherever the run ends, all it sends is what \<open>quota_sends\<close> lists; in
  particular it disables no account and gives no account another priority than those it was told.\<close>

theorem quota_run_only_sends:
  "list_all (quota_sends ap targets) (snd (snd (quota_run (logged W) ap targets (w, []))))"
  by (rule qr.sends_only)

subsection \<open>What success means\<close>

lemma must_accepted:
  assumes "must W ap method path body w = (Inr raw, w')"
  shows "accepted W (api_request ap method path body) w w'"
proof -
  obtain c raw' where s: "wd_server W (api_request ap method path body) w = (Answer c raw', w')"
    and r: "must_result method path c raw' = Inr raw"
    using assms by (auto simp: must_def abind_Inr call_def split: prod.splits answer.splits)
  from r have "200 \<le> c" "c < 300" by (auto simp: must_result_def split: if_splits)
  with s show ?thesis unfolding accepted_def by (blast intro: reaches.here)
qed

lemma quota_reaches:
  "update_accounts W ap targets w = (r1, w1) \<Longrightarrow> reaches W w w1"
  "must W ap method path body w = (r2, w2) \<Longrightarrow> reaches W w w2"
  "update_config W ap w = (r4, w4) \<Longrightarrow> reaches W w w4"
  "update_file W ap targets f w = (r5, w5) \<Longrightarrow> reaches W w w5"
  "read_int_setting W ap path key w = (r6, w6) \<Longrightarrow> reaches W w w6"
proof -
  note k = keeps_reaches [of W "\<lambda>_. True"] keeps_reaches [of W "quota_sends ap targets"]
  show "update_accounts W ap targets w = (r1, w1) \<Longrightarrow> reaches W w w1"
    using k(2) [of "update_accounts W ap targets" w r1 w1] update_accounts_keeps by blast
  show "must W ap method path body w = (r2, w2) \<Longrightarrow> reaches W w w2"
    using k(1) [of "must W ap method path body" w r2 w2] must_keeps [of W "\<lambda>_. True"] by blast
  show "update_config W ap w = (r4, w4) \<Longrightarrow> reaches W w w4"
    using k(2) [of "update_config W ap" w r4 w4] update_config_keeps by blast
  show "update_file W ap targets f w = (r5, w5) \<Longrightarrow> reaches W w w5"
    using k(2) [of "update_file W ap targets f" w r5 w5] update_file_keeps by blast
  show "read_int_setting W ap path key w = (r6, w6) \<Longrightarrow> reaches W w w6"
    using k(2) [of "read_int_setting W ap path key" w r6 w6] read_int_keeps by blast
qed

lemma apply_retry_keeps_any:
  assumes f: "frame W (\<lambda>_. True) P"
  shows "keeps P (apply_retry W ap kw)"
proof -
  have r: "keeps P (read_int_setting W ap path key)" for path key
  proof -
    have c: "keeps P (call W (api_request ap ''GET'' path NoBody))" by (rule call_keeps [OF f TrueI])
    show ?thesis
      unfolding read_int_setting_def
      by (intro keeps_abind c) (auto split: prod.split sum.split pyexn.split if_split)
  qed
  show ?thesis
    unfolding apply_retry_def Let_def
    by (intro keeps_abind r must_keeps [OF f TrueI]) (auto split: if_split)
qed

lemma update_file_patched:
  assumes "update_file W ap targets f w = (Inr (Some (e, name)), w')"
  shows "\<exists>pr. map_of targets e = Some pr
    \<and> accepted W (api_request ap ''PATCH'' ''/auth-files/fields'' (fields_body name pr)) w w'"
proof -
  obtain d where f: "f = JObj d" using assms by (cases f) (simp_all add: update_file_def)
  let ?on = "\<lambda>name. if truthy (dget d ''disabled'' JNull)
    then must W ap ''PATCH'' ''/auth-files/status'' (enable_body name) else aret []"
  from assms obtain pr raw w1 x where pr: "map_of targets e = Some pr"
    and m: "must W ap ''PATCH'' ''/auth-files/fields'' (fields_body name pr) w = (Inr raw, w1)"
    and on: "?on name w1 = (Inr x, w')"
    unfolding f update_file_def json.case Let_def
    by (auto simp: abind_Inr split: if_split_asm option.splits)
  have "reaches W w1 w'" using on by (auto split: if_splits intro: reaches.here quota_reaches(2))
  with must_accepted [OF m] pr show ?thesis by (auto intro: accepted_wider reaches.here)
qed

lemma update_accounts_patched:
  assumes "update_accounts W ap targets w = (Inr changed, w')"
  shows "\<forall>e \<in> fst ` set targets. \<exists>pr name. map_of targets e = Some pr
    \<and> accepted W (api_request ap ''PATCH'' ''/auth-files/fields'' (fields_body name pr)) w w'"
proof
  fix e
  assume e: "e \<in> fst ` set targets"
  from assms obtain raw w1 files cs where g: "must W ap ''GET'' ''/auth-files'' NoBody w = (Inr raw, w1)"
    and c: "amap (update_file W ap targets) files w1 = (Inr cs, w')"
    and ok: "check_changed targets (somes cs) = Inr ()" and ch: "changed = somes cs"
    unfolding update_accounts_def by (auto simp: abind_Inr)
  have "e \<in> fst ` set (somes cs)"
    using ok e by (auto simp: check_changed_def Let_def filter_empty_conv split: if_splits)
  then obtain name where n: "Some (e, name) \<in> set cs" by auto
  have uf: "reaches W u (snd (update_file W ap targets f u))" for f u
    by (rule quota_reaches(4) [OF surjective_pairing])
  from amap_visits(2) [OF uf c n] obtain f u1 u2 where u: "reaches W w1 u1"
    "update_file W ap targets f u1 = (Inr (Some (e, name)), u2)" "reaches W u2 w'" by blast
  from update_file_patched [OF u(2)] obtain pr where pr: "map_of targets e = Some pr"
    "accepted W (api_request ap ''PATCH'' ''/auth-files/fields'' (fields_body name pr)) u1 u2" by blast
  have "reaches W w u1" by (rule reaches_trans [OF u(1) quota_reaches(2) [OF g]])
  with pr u(3) show "\<exists>pr name. map_of targets e = Some pr
      \<and> accepted W (api_request ap ''PATCH'' ''/auth-files/fields'' (fields_body name pr)) w w'"
    by (blast intro: accepted_wider)
qed

lemma apply_retry_accepted:
  assumes "apply_retry W ap (key, want) w = (Inr y, w')"
  shows "accepted W (api_request ap ''PUT'' (''/'' @ key) (value_body (JInt want))) w w'"
proof -
  from assms obtain before w1 raw w2 aft where h: "read_int_setting W ap (''/'' @ key) key w = (Inr before, w1)"
    "must W ap ''PUT'' (''/'' @ key) (value_body (JInt want)) w1 = (Inr raw, w2)"
    "read_int_setting W ap (''/'' @ key) key w2 = (Inr aft, w')"
    by (auto simp: apply_retry_def Let_def abind_Inr split: if_splits)
  show ?thesis
    by (rule accepted_wider [OF must_accepted [OF h(2)] quota_reaches(5) [OF h(1)] quota_reaches(5) [OF h(3)]])
qed

lemma apply_retries_accepted:
  assumes "apply_retry_settings W ap w = (Inr rs, w')"
  shows "reaches W w w'"
    and "(key, want) \<in> set RETRY_SETTINGS \<Longrightarrow>
      accepted W (api_request ap ''PUT'' (''/'' @ key) (value_body (JInt want))) w w'"
proof -
  have k: "reaches W u (snd (apply_retry W ap kw u))" for kw u
    using keeps_reaches [of W "\<lambda>_. True" "apply_retry W ap kw" u] apply_retry_keeps_any surjective_pairing by blast
  note am = amap_visits [OF k assms [unfolded apply_retry_settings_def]]
  show "reaches W w w'" by (rule am(3))
  assume "(key, want) \<in> set RETRY_SETTINGS"
  from am(1) [OF this] obtain y u1 u2 where "reaches W w u1" "apply_retry W ap (key, want) u1 = (Inr y, u2)"
    "reaches W u2 w'" by blast
  then show "accepted W (api_request ap ''PUT'' (''/'' @ key) (value_body (JInt want))) w w'"
    by (blast intro: accepted_wider apply_retry_accepted)
qed

text \<open>C22: When a run succeeds, the proxy has accepted, during that run, the priority of an account of every target
  email, both quota switches and every retry setting.\<close>

theorem quota_run_sound:
  assumes "quota_run W ap targets w = (Inr c, w')"
  shows "c = 0
    \<and> list_all (\<lambda>e. \<exists>pr name. map_of targets e = Some pr
        \<and> accepted W (api_request ap ''PATCH'' ''/auth-files/fields'' (fields_body name pr)) w w') (map fst targets)
    \<and> accepted W (api_request ap ''PUT'' ''/quota-exceeded/switch-project'' (value_body (JBool True))) w w'
    \<and> accepted W (api_request ap ''PUT'' ''/quota-exceeded/switch-preview-model'' (value_body (JBool True))) w w'
    \<and> list_all (\<lambda>(key, want). accepted W (api_request ap ''PUT'' (''/'' @ key) (value_body (JInt want))) w w')
        RETRY_SETTINGS"
proof -
  from assms obtain changed r1 r2 rs b w1 w2 w3 w4
    where a: "update_accounts W ap targets w = (Inr changed, w1)"
      and p1: "must W ap ''PUT'' ''/quota-exceeded/switch-project'' (value_body (JBool True)) w1 = (Inr r1, w2)"
      and p2: "must W ap ''PUT'' ''/quota-exceeded/switch-preview-model'' (value_body (JBool True)) w2 = (Inr r2, w3)"
      and rs: "apply_retry_settings W ap w3 = (Inr rs, w4)"
      and cf: "update_config W ap w4 = (Inr b, w')" and c: "c = 0"
    unfolding quota_run_def by (auto simp: abind_Inr)
  have r0: "reaches W w w1" by (rule quota_reaches(1) [OF a])
  have r1: "reaches W w w2" by (rule reaches_trans [OF quota_reaches(2) [OF p1] r0])
  have r2: "reaches W w w3" by (rule reaches_trans [OF quota_reaches(2) [OF p2] r1])
  have t4: "reaches W w4 w'" by (rule quota_reaches(3) [OF cf])
  have t3: "reaches W w3 w'" by (rule reaches_trans [OF t4 apply_retries_accepted(1) [OF rs]])
  have t2: "reaches W w2 w'" by (rule reaches_trans [OF t3 quota_reaches(2) [OF p2]])
  have t1: "reaches W w1 w'" by (rule reaches_trans [OF t2 quota_reaches(2) [OF p1]])
  have "\<exists>pr name. map_of targets e = Some pr
      \<and> accepted W (api_request ap ''PATCH'' ''/auth-files/fields'' (fields_body name pr)) w w'"
    if "e \<in> fst ` set targets" for e
    using bspec [OF update_accounts_patched [OF a] that] accepted_wider [OF _ reaches.here t1] by blast
  moreover note accepted_wider [OF must_accepted [OF p1] r0 t2] accepted_wider [OF must_accepted [OF p2] r1 t3]
  moreover note accepted_wider [OF apply_retries_accepted(2) [OF rs] r2 t4]
  ultimately show ?thesis using c by (auto simp: list_all_iff)
qed

subsection \<open>A run\<close>

definition two_files :: string where
  "two_files = dumps (JObj [(''files'', JArr
     [JObj [(''email'', JStr ''A@x''), (''name'', JStr ''a''), (''provider'', JStr ''claude''), (''disabled'', JBool True)],
      JObj [(''label'', JStr ''b@x''), (''id'', JStr ''b''), (''type'', JStr ''claude'')],
      JObj [(''email'', JStr ''a@x''), (''provider'', JStr ''gemini'')]])])"

definition quota_world :: "unit world" where
  "quota_world =
     \<lparr>wd_server = (\<lambda>rq w.
        (if ht_method rq \<noteq> ''GET'' then Answer 200 []
         else if ht_url rq = ''/v0/management/auth-files'' then Answer 200 two_files
         else if ht_url rq = ''/v0/management/config.yaml''
         then Answer 200 (join [NL] [''routing:'', ''  session-affinity: TRUE # on'', ''debug: false''])
         else Answer 404 [], w)),
      wd_time = (\<lambda>_. 0), wd_sleep = (\<lambda>s w. w)\<rparr>"

definition quota_api :: api where
  "quota_api = \<lparr>ap_base = [], ap_mgmt = ''m''\<rparr>"

definition two_targets :: targets where
  "two_targets = [(''a@x'', 2), (''b@x'', 1)]"

lemma quota_run_example: "quota_run quota_world quota_api two_targets () = (Inr 0, ())"
  by code_simp

lemma quota_requests_example:
  "map ht_method (snd (snd (quota_run (logged quota_world) quota_api two_targets ((), []))))
   = [''GET'', ''PATCH'', ''PATCH'', ''PATCH'', ''PUT'', ''PUT'', ''GET'', ''PUT'', ''GET'', ''GET'', ''PUT'', ''GET'', ''GET'', ''PUT'']"
  by code_simp

theorem quota_run_sound_witness:
  "\<exists>name. accepted quota_world (api_request quota_api ''PATCH'' ''/auth-files/fields'' (fields_body name 1)) () ()"
  using quota_run_sound [OF quota_run_example] by (auto simp: two_targets_def)

end
