(* ===== verification/CaddyBlock.thy ===== *)
theory CaddyBlock
  imports Rewrite
begin

text \<open>
  The block of one site in a Caddyfile, \<open>beszel/caddy_block.py\<close>: it puts its own block in place of the
  site's, or behind the text when the site has none. The file is the text read, what the script prints
  is its result.
\<close>

subsection \<open>caddy_block.py\<close>

definition HOST :: string where
  "HOST = ''status.hangocthanh.io.vn''"

definition tabbed :: "nat \<Rightarrow> string \<Rightarrow> string" where
  "tabbed n s = replicate n (CHR 0x09) @ s"

text \<open>The block from its opening brace to its closing one.\<close>

definition block_body :: string where
  "block_body = join [NL]
     [''{'',
      tabbed 1 ''# SSO tu CMS: xoa header client tu gui, hoi derp-backend xem phien CMS con'',
      tabbed 1 ''# hop le khong; hop le -> chep X-Auth-Email (Beszel TRUSTED_AUTH_HEADER).'',
      tabbed 1 ''# PHAI boc route{}: thu tu mac dinh cua Caddy chay forward_auth TRUOC'',
      tabbed 1 ''# request_header -> header vua chep bi xoa, Beszel luon hien trang login'',
      tabbed 1 ''# (su co 2026-09-14). route{} giu dung thu tu viet.'',
      tabbed 1 ''route {'',
      tabbed 2 ''request_header -X-Auth-Email'',
      tabbed 2 ''forward_auth derp-backend:8787 {'',
      tabbed 3 ''uri /api/auth/forward'',
      tabbed 3 ''copy_headers X-Auth-Email'',
      tabbed 3 ''@unauth status 401 404'',
      tabbed 3 ''handle_response @unauth {'',
      tabbed 4 ''redir https://cms.hangocthanh.io.vn/app/sign-in 302'',
      tabbed 3 ''}'',
      tabbed 2 ''}'',
      tabbed 2 ''reverse_proxy beszel:8090'',
      tabbed 1 ''}'',
      tabbed 1 ''# Trang Monitor cua CMS nhung iframe: chi cho cms.* frame, site la thi khong.'',
      tabbed 1 ''header -X-Frame-Options'',
      tabbed 1 (''header ?Content-Security-Policy '' @ [CHR 0x22] @ ''frame-ancestors 'self' https://cms.hangocthanh.io.vn'' @ [CHR 0x22]),
      ''}'']"

definition BLOCK :: string where
  "BLOCK = HOST @ '' '' @ block_body @ [NL]"

text \<open>A match of \<open>HOST\s*\{\<close> at the front: the text from the brace on.\<close>

definition site_here :: "string \<Rightarrow> string option" where
  "site_here t =
     (if starts_with HOST t then
        (case lstrip (drop (length HOST) t) of
           [] \<Rightarrow> None
         | c # r \<Rightarrow> if c = CHR ''{'' then Some (c # r) else None)
      else None)"

text \<open>\<open>re.search\<close> of it at a line start: the text before the match, and the text from its brace on.\<close>

fun split_site :: "bool \<Rightarrow> string \<Rightarrow> (string \<times> string) option" where
  "split_site bol [] = None"
| "split_site bol (c # s) =
     (case (if bol then site_here (c # s) else None) of
        Some r \<Rightarrow> Some ([], r)
      | None \<Rightarrow> map_option (\<lambda>(a, r). (c # a, r)) (split_site (c = NL) s))"

text \<open>The loop that counts braces: the text after the one that closes the block.\<close>

fun close_brace :: "int \<Rightarrow> string \<Rightarrow> string option" where
  "close_brace depth [] = None"
| "close_brace depth (c # s) =
     (if c = CHR ''{'' then close_brace (depth + 1) s
      else if c = CHR ''}'' then (if depth - 1 = 0 then Some s else close_brace (depth - 1) s)
      else close_brace depth s)"

definition drop_NL :: "string \<Rightarrow> string" where
  "drop_NL s = (case s of [] \<Rightarrow> [] | c # t \<Rightarrow> if c = NL then t else s)"

definition replace_site :: "string \<Rightarrow> string res" where
  "replace_site t =
     (case split_site True t of
        None \<Rightarrow> Inr (rstrip_char NL t @ [NL, NL] @ ''# Beszel (deployHeadscale/beszel)'' @ [NL] @ BLOCK)
      | Some (before, from) \<Rightarrow>
          (case close_brace 0 from of
             None \<Rightarrow> Inl (SystemExitMsg (''block '' @ HOST @ '' khong dong ngoac''))
           | Some after \<Rightarrow> Inr (before @ BLOCK @ drop_NL after)))"

subsection \<open>It finds its own block again\<close>

lemma HOST_Cons: "\<exists>c h. HOST = c # h"
  by (simp add: HOST_def)

lemma HOST_chars: "c \<in> set HOST \<Longrightarrow> \<not> is_space c \<and> c \<noteq> CHR ''{''"
proof -
  have "list_all (\<lambda>c. \<not> is_space c \<and> c \<noteq> CHR ''{'') HOST" by code_simp
  then show "c \<in> set HOST \<Longrightarrow> \<not> is_space c \<and> c \<noteq> CHR ''{''" by (simp add: list_all_iff)
qed

lemma site_here_iff:
  "site_here t = Some r \<longleftrightarrow> (\<exists>w r'. t = HOST @ w @ r \<and> r = CHR ''{'' # r' \<and> (\<forall>c \<in> set w. is_space c))"
proof
  assume a: "site_here t = Some r"
  then obtain u where t: "t = HOST @ u" by (auto simp: site_here_def starts_with_iff split: if_splits)
  have "u = takeWhile is_space u @ lstrip u" by (simp add: lstrip_def)
  moreover obtain r' where "lstrip u = r" "r = CHR ''{'' # r'"
    using a t by (auto simp: site_here_def split: list.splits if_splits)
  ultimately show "\<exists>w r'. t = HOST @ w @ r \<and> r = CHR ''{'' # r' \<and> (\<forall>c \<in> set w. is_space c)"
    using t by (metis set_takeWhileD)
next
  assume "\<exists>w r'. t = HOST @ w @ r \<and> r = CHR ''{'' # r' \<and> (\<forall>c \<in> set w. is_space c)"
  then obtain w r' where t: "t = HOST @ w @ CHR ''{'' # r'" "r = CHR ''{'' # r'" "\<forall>c \<in> set w. is_space c" by blast
  then have "lstrip (w @ CHR ''{'' # r') = CHR ''{'' # r'"
    by (simp add: lstrip_append_strip) (simp add: lstrip_def is_space_def)
  with t show "site_here t = Some r" by (simp add: site_here_def)
qed

text \<open>A match that starts before a \<open>HOST\<close> ends before it.\<close>

lemma site_before_host:
  assumes "u \<noteq> []" and m: "u @ HOST @ x = HOST @ w @ CHR ''{'' # r" and sp: "\<forall>c \<in> set w. is_space c"
  shows "\<exists>r'. u = HOST @ w @ CHR ''{'' # r'"
proof -
  let ?p = "length u" and ?h = "length HOST" and ?T = "u @ HOST @ x"
  have host: "?T ! i \<in> set HOST" if "?p \<le> i" "i < ?p + ?h" for i
  proof -
    have "i - ?p < ?h" using that by arith
    then show ?thesis using that by (simp add: nth_append)
  qed
  have brace: "?T ! (?h + length w) = CHR ''{''" unfolding m by (simp add: nth_append)
  have space: "is_space (?T ! i)" if "?h \<le> i" "i < ?h + length w" for i
  proof -
    have l: "i - ?h < length w" using that by arith
    then have "?T ! i = w ! (i - ?h)" unfolding m using that by (simp add: nth_append)
    moreover have "w ! (i - ?h) \<in> set w" using l by simp
    ultimately show ?thesis using sp by simp
  qed
  have "?h + length w < ?p"
  proof (rule ccontr)
    assume n: "\<not> ?h + length w < ?p"
    have "\<not> ?h + length w < ?p + ?h" using n host [of "?h + length w"] brace HOST_chars by force
    then have l: "?p \<le> length w" by simp
    have p: "0 < ?p" using assms(1) by simp
    have hp: "0 < ?h" by (simp add: HOST_def)
    show False
    proof (cases "?p \<le> ?h")
      case True
      have "is_space (?T ! ?h)" by (rule space) (use l p in arith)+
      moreover have "?T ! ?h \<in> set HOST" using host [of ?h] True p by simp
      ultimately show False using HOST_chars by blast
    next
      case False
      have "is_space (?T ! ?p)" by (rule space) (use l p False hp in arith)+
      moreover have "?T ! ?p \<in> set HOST" using host [of ?p] hp by simp
      ultimately show False using HOST_chars by blast
    qed
  qed
  then have "take (?h + length w + 1) u = take (?h + length w + 1) ?T" by simp
  also have "\<dots> = HOST @ w @ [CHR ''{'']" unfolding m by simp
  finally show ?thesis by (metis append.assoc append_Cons append_Nil append_take_drop_id)
qed

lemma site_here_host: "u \<noteq> [] \<Longrightarrow> site_here (u @ HOST @ x) = None \<Longrightarrow> site_here (u @ HOST @ y) = None"
proof (rule ccontr)
  assume u: "u \<noteq> []" "site_here (u @ HOST @ x) = None" "site_here (u @ HOST @ y) \<noteq> None"
  then obtain w r where "u @ HOST @ y = HOST @ w @ CHR ''{'' # r" and sp: "\<forall>c \<in> set w. is_space c"
    by (auto simp: site_here_iff)
  from site_before_host [OF u(1) this] obtain r' where "u = HOST @ w @ CHR ''{'' # r'" by blast
  then have "site_here (u @ HOST @ x) \<noteq> None" using sp by (auto simp: site_here_iff)
  with u(2) show False by simp
qed

lemma split_site_step:
  "(if bol then site_here (c # s) else None) = None \<Longrightarrow>
   split_site bol (c # s) = map_option (\<lambda>(a, r). (c # a, r)) (split_site (c = NL) s)"
  by simp

lemma split_site_parts: "split_site bol t = Some (a, r) \<Longrightarrow> \<exists>w. t = a @ HOST @ w @ r"
proof (induction bol t arbitrary: a rule: split_site.induct)
  case (2 bol c s)
  show ?case
  proof (cases "if bol then site_here (c # s) else None")
    case None
    with 2 obtain a' where "a = c # a'" "split_site (c = NL) s = Some (a', r)" by auto
    with "2.IH" [OF None] show ?thesis by auto
  next
    case (Some r')
    with "2.prems" have "a = []" "site_here (c # s) = Some r" by (auto split: if_splits)
    then show ?thesis by (auto simp: site_here_iff)
  qed
qed simp

lemma split_site_host: "site_here (HOST @ z) = Some q \<Longrightarrow> split_site True (HOST @ z) = Some ([], q)"
proof -
  obtain c h where "HOST = c # h" using HOST_Cons by blast
  then have e: "HOST @ z = c # (h @ z)" by simp
  assume a: "site_here (HOST @ z) = Some q"
  show "split_site True (HOST @ z) = Some ([], q)"
    using a unfolding e by simp
qed

lemma split_site_again:
  assumes "site_here (HOST @ z) = Some q"
  shows "split_site bol t = Some (a, r) \<Longrightarrow> split_site bol (a @ HOST @ z) = Some (a, q)"
proof (induction bol t arbitrary: a rule: split_site.induct)
  case (2 bol c s)
  show ?case
  proof (cases "if bol then site_here (c # s) else None")
    case None
    with 2 obtain a' where a: "a = c # a'" "split_site (c = NL) s = Some (a', r)" by auto
    from split_site_parts [OF a(2)] obtain w where s: "s = a' @ HOST @ w @ r" by blast
    have "(if bol then site_here (c # a' @ HOST @ z) else None) = None"
      using None s site_here_host [of "c # a'" "w @ r" z] by auto
    with "2.IH" [OF None a(2)] a(1) show ?thesis by simp
  next
    case (Some r')
    with "2.prems" have "a = []" bol by (auto split: if_splits)
    then show ?thesis using split_site_host [OF assms] by simp
  qed
qed simp

lemma site_here_brace: "site_here t \<noteq> None \<Longrightarrow> CHR ''{'' \<in> set t"
  by (auto simp: site_here_iff)

lemma site_here_append: "site_here v \<noteq> None \<Longrightarrow> site_here (v @ x) \<noteq> None"
  by (auto simp: site_here_iff) (metis append.assoc append_Cons)

lemma site_here_no_brace:
  "CHR ''{'' \<notin> set tail \<Longrightarrow> site_here v = None \<Longrightarrow> site_here (v @ tail) = None"
proof (rule ccontr)
  assume a: "CHR ''{'' \<notin> set tail" "site_here v = None" "site_here (v @ tail) \<noteq> None"
  then obtain w r where t: "v @ tail = HOST @ w @ CHR ''{'' # r" and sp: "\<forall>c \<in> set w. is_space c"
    by (auto simp: site_here_iff)
  then have "(\<exists>r'. v = (HOST @ w @ [CHR ''{'']) @ r') \<or> CHR ''{'' \<in> set tail"
    using append_eq_append_conv2 [of v tail "HOST @ w @ [CHR ''{'']" r] by (auto simp: append_eq_Cons_conv)
      (metis append_Nil2 append_eq_append_conv2 in_set_conv_decomp_last last_appendR last_in_set last_snoc list.distinct(1))
  with a(1) obtain r' where "v = HOST @ w @ CHR ''{'' # r'" by auto
  with a(2) sp show False by (metis option.distinct(1) site_here_iff)
qed

lemma split_site_no_brace: "CHR ''{'' \<notin> set tail \<Longrightarrow> split_site bol tail = None"
proof (induction bol tail rule: split_site.induct)
  case (2 bol c s)
  have n: "site_here (c # s) = None" using site_here_brace [of "c # s"] "2.prems" by (cases "site_here (c # s)") auto
  then have "(if bol then site_here (c # s) else None) = None" by simp
  with 2 n show ?case by simp
qed simp

lemma split_site_append_none:
  "CHR ''{'' \<notin> set tail \<Longrightarrow> split_site bol v = None \<Longrightarrow> split_site bol (v @ tail) = None"
proof (induction bol v rule: split_site.induct)
  case (1 bol)
  then show ?case by (simp add: split_site_no_brace)
next
  case (2 bol c s)
  then have n: "(if bol then site_here (c # s) else None) = None" by (auto split: option.splits)
  then have n': "(if bol then site_here (c # s @ tail) else None) = None"
    using site_here_no_brace [OF "2.prems"(1), of "c # s"] by auto
  show ?case
    using "2.IH" [OF n] "2.prems" split_site_step [OF n] by (simp add: split_site_step [OF n'] del: split_site.simps)
qed

lemma split_site_prefix_none: "split_site bol (v @ x) = None \<Longrightarrow> split_site bol v = None"
proof (induction bol v rule: split_site.induct)
  case (2 bol c s)
  then have n: "(if bol then site_here (c # s @ x) else None) = None" by (auto split: option.splits)
  then have n': "(if bol then site_here (c # s) else None) = None"
    using site_here_append [of "c # s" x] by (cases "site_here (c # s)") (auto split: if_splits)
  show ?case
    using "2.IH" [OF n'] "2.prems" split_site_step [OF n] by (simp add: split_site_step [OF n'] del: split_site.simps)
qed simp

lemma split_site_then_host:
  assumes "site_here (HOST @ z) = Some q"
  shows "split_site bol u = None \<Longrightarrow> (u = [] \<longrightarrow> bol) \<Longrightarrow> (u \<noteq> [] \<longrightarrow> last u = NL) \<Longrightarrow>
    split_site bol (u @ HOST @ z) = Some (u, q)"
proof (induction bol u rule: split_site.induct)
  case (1 bol)
  with split_site_host [OF assms] show ?case by simp
next
  case (2 bol c s)
  then have n: "(if bol then site_here (c # s) else None) = None" by (auto split: option.splits)
  have "site_here ((c # s) @ HOST @ z) = None" if "site_here (c # s) = None"
  proof (rule ccontr)
    assume "site_here ((c # s) @ HOST @ z) \<noteq> None"
    then obtain w r where t: "(c # s) @ HOST @ z = HOST @ w @ CHR ''{'' # r" and sp: "\<forall>c \<in> set w. is_space c"
      by (auto simp: site_here_iff)
    from site_before_host [OF _ t sp] that sp show False by (metis list.distinct(1) option.distinct(1) site_here_iff)
  qed
  with n have n': "(if bol then site_here (c # s @ HOST @ z) else None) = None" by (auto split: if_splits)
  have "split_site (c = NL) (s @ HOST @ z) = Some (s, q)"
    by (rule "2.IH" [OF n]) (use 2 n in \<open>auto split: if_splits\<close>)
  then show ?case by (simp add: split_site_step [OF n'] del: split_site.simps)
qed

lemma close_brace_append: "close_brace d s = Some t \<Longrightarrow> close_brace d (s @ x) = Some (t @ x)"
  by (induction d s rule: close_brace.induct) (auto split: if_splits)

lemma block_body_closes_self: "close_brace 0 block_body = Some []"
  by code_simp

lemma block_body_closes: "close_brace 0 (block_body @ x) = Some x"
  using close_brace_append [of 0 block_body "[]" x] by (simp add: block_body_closes_self)

lemma site_here_BLOCK: "site_here (BLOCK @ x) = Some (block_body @ NL # x)"
proof -
  obtain r' where b: "block_body = CHR ''{'' # r'" by (simp add: block_body_def)
  have "BLOCK @ x = HOST @ '' '' @ block_body @ NL # x" by (simp add: BLOCK_def)
  then show ?thesis unfolding site_here_iff b by (intro exI [of _ "'' ''"] exI [of _ "r' @ NL # x"])
      (simp add: is_space_def)
qed

lemma BLOCK_host: "\<exists>z. BLOCK @ x = HOST @ z"
  by (simp add: BLOCK_def)

lemma replace_site_settled:
  assumes "split_site True (a @ BLOCK @ x) = Some (a, block_body @ NL # x)"
  shows "replace_site (a @ BLOCK @ x) = Inr (a @ BLOCK @ x)"
  by (simp add: replace_site_def assms block_body_closes drop_NL_def)

lemma strip_NL_prefix: "\<exists>ns. t = rstrip_char c t @ ns"
proof -
  have "rev t = takeWhile (\<lambda>x. x = c) (rev t) @ dropWhile (\<lambda>x. x = c) (rev t)" by simp
  then have "t = rstrip_char c t @ rev (takeWhile (\<lambda>x. x = c) (rev t))"
    unfolding rstrip_char_def by (metis rev_append rev_rev_ident)
  then show ?thesis by blast
qed

text \<open>The result of the edit: the block, where it was or at the end, with a text before it in which no site
  starts.\<close>

lemma replace_site_shape:
  assumes "replace_site t = Inr out"
  obtains a x where "out = a @ BLOCK @ x" "split_site True (a @ BLOCK @ x) = Some (a, block_body @ NL # x)"
proof (cases "split_site True t")
  case None
  obtain ns where ns: "t = rstrip_char NL t @ ns" using strip_NL_prefix by blast
  have n: "split_site True (rstrip_char NL t) = None"
    by (rule split_site_prefix_none [of _ _ ns]) (use ns None in simp)
  let ?tail = "[NL, NL] @ ''# Beszel (deployHeadscale/beszel)'' @ [NL]"
  let ?a = "rstrip_char NL t @ ?tail"
  have a: "split_site True ?a = None" by (rule split_site_append_none [OF _ n]) (simp add: NL_def)
  have "out = ?a @ BLOCK @ []" using assms None by (simp add: replace_site_def)
  moreover obtain z where z: "BLOCK @ [] = HOST @ z" using BLOCK_host by blast
  have "split_site True (?a @ HOST @ z) = Some (?a, block_body @ NL # [])"
    by (rule split_site_then_host [OF _ a]) (use site_here_BLOCK [of "[]", unfolded z] in simp_all)
  ultimately show thesis using that [of ?a "[]"] unfolding z [symmetric] by blast
next
  case (Some br)
  obtain b r where br: "br = (b, r)" by (cases br)
  obtain u where u: "out = b @ BLOCK @ u"
    using assms Some br by (auto simp: replace_site_def split: option.splits)
  obtain z where z: "BLOCK @ u = HOST @ z" using BLOCK_host by blast
  have "split_site True (b @ HOST @ z) = Some (b, block_body @ NL # u)"
    by (rule split_site_again [OF _ Some [unfolded br]]) (use site_here_BLOCK [of u, unfolded z] in simp)
  then show thesis using that [of b u] u unfolding z [symmetric] by blast
qed

interpretation cb: stable_rewrite "\<lambda>_::unit. True" "\<lambda>_. replace_site"
proof unfold_locales
  fix t t'
  assume "replace_site t = Inr t'"
  then obtain a x where "t' = a @ BLOCK @ x" "split_site True (a @ BLOCK @ x) = Some (a, block_body @ NL # x)"
    by (rule replace_site_shape)
  then show "replace_site t' = Inr t'" using replace_site_settled by simp
qed

text \<open>Editing the Caddyfile again, any number of times, gives the text of the first edit, or the same error.\<close>

theorem replace_site_stable: "rerun (Suc n) replace_site t = replace_site t"
  by (rule cb.rerun_once) simp_all

lemma close_brace_suffix: "close_brace d s = Some t \<Longrightarrow> \<exists>u. s = u @ CHR ''}'' # t"
proof (induction d s rule: close_brace.induct)
  case (2 depth c s)
  show ?case
  proof (cases "c = CHR ''}'' \<and> depth - 1 = 0")
    case True
    with "2.prems" have "c # s = [] @ CHR ''}'' # t" by simp
    then show ?thesis by blast
  next
    case False
    with 2 obtain u where "s = u @ CHR ''}'' # t" by (auto split: if_splits)
    then have "c # s = (c # u) @ CHR ''}'' # t" by simp
    then show ?thesis by blast
  qed
qed simp

lemma split_site_brace: "split_site bol t = Some (a, r) \<Longrightarrow> hd r = CHR ''{''"
proof (induction bol t arbitrary: a rule: split_site.induct)
  case (2 bol c s)
  show ?case
  proof (cases "if bol then site_here (c # s) else None")
    case None
    with 2 show ?thesis by auto
  next
    case (Some r')
    with "2.prems" have "site_here (c # s) = Some r" by (auto split: if_splits)
    then show ?thesis by (auto simp: site_here_iff)
  qed
qed simp



end
