(* ===== verification/CaddySite.thy ===== *)
theory CaddySite
  imports PyStr
begin

text \<open>
  The removal of a site from a Caddyfile, \<open>portainer-vpn4/remove-caddy-site.py\<close>: \<open>find_site_bounds\<close> on the
  lines with their line ends, and the checks of \<open>main\<close>. The text written is the result.
\<close>

definition SITE_ADDRESS :: string where
  "SITE_ADDRESS = ''https://portainer.hangocthanh.io.vn:8447''"

definition site_header :: "string \<Rightarrow> bool" where
  "site_header line = starts_with SITE_ADDRESS (lstrip line)"

definition brace_diff :: "string \<Rightarrow> int" where
  "brace_diff line = int (count_list line (CHR ''{'')) - int (count_list line (CHR ''}''))"

text \<open>How many lines, from the header on, until the braces balance.\<close>

fun close_line :: "int \<Rightarrow> string list \<Rightarrow> nat option" where
  "close_line depth [] = None"
| "close_line depth (line # ls) =
     (if depth + brace_diff line = 0 then Some 1
      else map_option Suc (close_line (depth + brace_diff line) ls))"

definition comment_line :: "string \<Rightarrow> bool" where
  "comment_line line = starts_with ''#'' (lstrip line)"

definition blank_line :: "string \<Rightarrow> bool" where
  "blank_line line = (strip line = [])"

definition site_starts :: "string list \<Rightarrow> nat list" where
  "site_starts lines = filter (\<lambda>i. site_header (lines ! i)) [0..<length lines]"

definition find_site_bounds :: "string list \<Rightarrow> (nat \<times> nat) res" where
  "find_site_bounds lines =
     (case site_starts lines of
        [start] \<Rightarrow>
          (if CHR ''{'' \<notin> set (lines ! start)
           then Inl (SystemExitMsg (''site header at line '' @ int_str (int start + 1) @ '' does not open a block''))
           else case close_line 0 (drop start lines) of
             None \<Rightarrow> Inl (SystemExitMsg ''unbalanced braces: site block never closes'')
           | Some n \<Rightarrow>
               Inr (start - length (takeWhile comment_line (rev (take start lines))),
                    start + n + length (takeWhile blank_line (drop (start + n) lines))))
      | starts \<Rightarrow>
          Inl (SystemExitMsg (''expected exactly one '' @ [CHR 0x27] @ SITE_ADDRESS @ [CHR 0x27]
            @ '' site block, found '' @ int_str (int (length starts)))))"

definition remove_site :: "string \<Rightarrow> string res" where
  "remove_site t =
     (let lines = splitlines_keep t in
      rbind (find_site_bounds lines) (\<lambda>(start, stop).
        let remaining = concat (take start lines @ drop stop lines) in
        if contains SITE_ADDRESS remaining
        then Inl (SystemExitMsg ''site address still present after removal'')
        else if count_list remaining (CHR ''{'') \<noteq> count_list remaining (CHR ''}'')
        then Inl (SystemExitMsg ''removal would leave unbalanced braces; refusing to write'')
        else Inr remaining))"

subsection \<open>Bounds\<close>

lemma close_line_bounds: "close_line d ls = Some n \<Longrightarrow> 0 < n \<and> n \<le> length ls"
  by (induction d ls arbitrary: n rule: close_line.induct) (auto split: if_splits)

lemma close_line_balance: "close_line d ls = Some n \<Longrightarrow> d + sum_list (map brace_diff (take n ls)) = 0"
  by (induction d ls arbitrary: n rule: close_line.induct) (auto split: if_splits simp: algebra_simps)

lemma brace_diff_append [simp]: "brace_diff (a @ b) = brace_diff a + brace_diff b"
  by (simp add: brace_diff_def)

lemma brace_diff_concat: "brace_diff (concat ls) = sum_list (map brace_diff ls)"
  by (induction ls) (simp_all add: brace_diff_def)

lemma balanced_iff: "count_list s (CHR ''{'') = count_list s (CHR ''}'') \<longleftrightarrow> brace_diff s = 0"
  by (simp add: brace_diff_def)

text \<open>The parts of the file around the site's lines.\<close>

definition site_parts :: "string list \<Rightarrow> string list \<Rightarrow> string list \<Rightarrow> string list \<Rightarrow> string list \<Rightarrow> bool" where
  "site_parts pre comments block blanks post =
     (list_all comment_line comments \<and> (pre = [] \<or> \<not> comment_line (last pre))
      \<and> block \<noteq> [] \<and> site_header (hd block) \<and> CHR ''{'' \<in> set (hd block)
      \<and> close_line 0 block = Some (length block)
      \<and> list_all (\<lambda>l. \<not> site_header l) (pre @ comments @ tl block @ blanks @ post)
      \<and> list_all blank_line blanks \<and> (post = [] \<or> \<not> blank_line (hd post)))"

lemma site_starts_single:
  "site_starts ls = [s] \<longleftrightarrow>
   s < length ls \<and> site_header (ls ! s) \<and> (\<forall>i<length ls. site_header (ls ! i) \<longrightarrow> i = s)"
proof
  assume a: "site_starts ls = [s]"
  then have "set (site_starts ls) = {s}" by simp
  then show "s < length ls \<and> site_header (ls ! s) \<and> (\<forall>i<length ls. site_header (ls ! i) \<longrightarrow> i = s)"
    unfolding site_starts_def by auto
next
  assume a: "s < length ls \<and> site_header (ls ! s) \<and> (\<forall>i<length ls. site_header (ls ! i) \<longrightarrow> i = s)"
  then have "set (site_starts ls) = {s}" by (auto simp: site_starts_def)
  moreover have "distinct (site_starts ls)" by (simp add: site_starts_def)
  ultimately show "site_starts ls = [s]"
    by (metis distinct_card length_Cons list.size(3) card.empty card_insert_if empty_iff finite.emptyI length_0_conv
        length_Suc_conv list.simps(15) set_empty singleton_insert_inj_eq)
qed

lemma close_line_append: "close_line d ls = Some n \<Longrightarrow> close_line d (ls @ x) = Some n"
  by (induction d ls arbitrary: n rule: close_line.induct) (auto split: if_splits)

lemma close_line_take: "close_line d ls = Some n \<Longrightarrow> close_line d (take n ls) = Some n"
  by (induction d ls arbitrary: n rule: close_line.induct) (auto split: if_splits)

lemma takeWhile_prefix:
  "list_all P xs \<Longrightarrow> ys = [] \<or> \<not> P (hd ys) \<Longrightarrow> takeWhile P (xs @ ys) = xs"
  by (induction xs) (auto simp: takeWhile_eq_Nil_iff)

lemma site_bounds_of_parts:
  assumes "site_parts pre cs blk bl post"
  shows "find_site_bounds (pre @ cs @ blk @ bl @ post) =
    Inr (length pre, length pre + length cs + length blk + length bl)"
proof -
  let ?ls = "pre @ cs @ blk @ bl @ post" and ?s = "length pre + length cs"
  obtain h body where blk: "blk = h # body" using assms by (cases blk) (auto simp: site_parts_def)
  have at: "?ls ! ?s = h" "?s < length ?ls" by (simp_all add: blk nth_append)
  have no: "\<not> site_header l" if "l \<in> set (pre @ cs @ body @ bl @ post)" for l
    using assms that by (auto simp: site_parts_def blk list_all_iff)
  have "i = ?s" if i: "i < length ?ls" "site_header (?ls ! i)" for i
  proof (rule ccontr)
    assume "i \<noteq> ?s"
    then consider "i < ?s" | "?s < i" by linarith
    then show False
    proof cases
      case 1
      have "?ls = (pre @ cs) @ (blk @ bl @ post)" by simp
      then have "?ls ! i = (pre @ cs) ! i" using 1 by (simp only: nth_append length_append if_True)
      moreover have "(pre @ cs) ! i \<in> set (pre @ cs)" using 1 by (intro nth_mem) simp
      ultimately show False using i(2) no by auto
    next
      case 2
      obtain j where j: "i = ?s + Suc j" using 2 less_imp_Suc_add by auto
      then have "?ls ! i = (body @ bl @ post) ! j" by (simp add: nth_append blk)
      moreover have "(body @ bl @ post) ! j \<in> set (body @ bl @ post)" using i(1) j by (intro nth_mem) (simp add: blk)
      ultimately show False using i(2) no by auto
    qed
  qed
  then have st: "site_starts ?ls = [?s]"
    using at assms by (auto simp: site_starts_single site_parts_def blk)
  have d: "drop ?s ?ls = blk @ bl @ post" by simp
  have c: "close_line 0 (drop ?s ?ls) = Some (length blk)"
    unfolding d by (rule close_line_append) (use assms in \<open>simp add: site_parts_def\<close>)
  have "takeWhile comment_line (rev (take ?s ?ls)) = rev cs"
    using takeWhile_prefix [of comment_line "rev cs" "rev pre"] assms
    by (auto simp: site_parts_def hd_rev)
  moreover have "takeWhile blank_line (drop (?s + length blk) ?ls) = bl"
    using takeWhile_prefix [of blank_line bl post] assms by (auto simp: site_parts_def)
  moreover have "CHR ''{'' \<in> set (?ls ! ?s)" using assms at by (simp add: site_parts_def blk)
  ultimately show ?thesis
    using c by (simp add: find_site_bounds_def st)
qed

lemma rev_takeWhile_split:
  "\<exists>pre. xs = pre @ rev (takeWhile P (rev xs)) \<and> (pre = [] \<or> \<not> P (last pre))
     \<and> length pre = length xs - length (takeWhile P (rev xs))"
proof -
  let ?pre = "rev (dropWhile P (rev xs))"
  have "rev xs = takeWhile P (rev xs) @ dropWhile P (rev xs)" by simp
  then have e: "xs = ?pre @ rev (takeWhile P (rev xs))" by (metis rev_append rev_rev_ident)
  have "?pre = [] \<or> \<not> P (last ?pre)" using dropWhile_hd [of P "rev xs"] by (auto simp: last_rev)
  moreover have "length ?pre = length xs - length (takeWhile P (rev xs))"
    using arg_cong [OF e, of length] by simp
  ultimately show ?thesis using e by blast
qed

lemma site_parts_of_bounds:
  assumes "find_site_bounds ls = Inr (s, e)"
  shows "\<exists>pre cs blk bl post. ls = pre @ cs @ blk @ bl @ post \<and> site_parts pre cs blk bl post
    \<and> s = length pre \<and> e = length pre + length cs + length blk + length bl"
proof -
  obtain st where st: "site_starts ls = [st]"
    using assms by (auto simp: find_site_bounds_def split: list.splits)
  then have h: "st < length ls" "site_header (ls ! st)" "\<forall>i<length ls. site_header (ls ! i) \<longrightarrow> i = st"
    by (simp_all add: site_starts_single)
  have b: "CHR ''{'' \<in> set (ls ! st)" using assms by (auto simp: find_site_bounds_def st split: if_splits)
  then obtain n where n: "close_line 0 (drop st ls) = Some n"
    and s: "s = st - length (takeWhile comment_line (rev (take st ls)))"
    and e: "e = st + n + length (takeWhile blank_line (drop (st + n) ls))"
    using assms by (auto simp: find_site_bounds_def st split: option.splits)
  let ?blk = "take n (drop st ls)" and ?bl = "takeWhile blank_line (drop (st + n) ls)"
    and ?post = "dropWhile blank_line (drop (st + n) ls)"
    and ?cs = "rev (takeWhile comment_line (rev (take st ls)))"
  obtain pre where pre: "take st ls = pre @ ?cs" "pre = [] \<or> \<not> comment_line (last pre)"
    "length pre = length (take st ls) - length (takeWhile comment_line (rev (take st ls)))"
    using rev_takeWhile_split [of "take st ls" comment_line] by blast
  have n0: "0 < n" "n \<le> length ls - st" using close_line_bounds [OF n] by simp_all
  have "ls = take st ls @ take n (drop st ls) @ drop n (drop st ls)" by (simp only: append_take_drop_id)
  also have "drop n (drop st ls) = ?bl @ ?post" by (simp add: add.commute)
  also have "take st ls @ ?blk @ ?bl @ ?post = (pre @ ?cs) @ ?blk @ ?bl @ ?post"
    by (rule arg_cong [OF pre(1), of "\<lambda>t. t @ ?blk @ ?bl @ ?post"])
  finally have split: "ls = pre @ ?cs @ ?blk @ ?bl @ ?post" by (simp only: append.assoc)
  have lst: "length pre + length ?cs = st" using arg_cong [OF pre(1), of length] h(1) by simp
  have hd: "hd ?blk = ls ! st" using n0 h(1) by (simp add: hd_drop_conv_nth)
  have ne: "?blk \<noteq> []" using n0 h(1) by simp
  have rest: "\<not> site_header l" if "l \<in> set (pre @ ?cs @ tl ?blk @ ?bl @ ?post)" for l
  proof -
    have bh: "?blk = ls ! st # tl ?blk" using ne hd by (metis list.collapse)
    have "l \<in> set (pre @ ?cs) \<or> l \<in> set (tl ?blk @ ?bl @ ?post)" using that by auto
    then show ?thesis
    proof
      assume "l \<in> set (pre @ ?cs)"
      then have "l \<in> set (take st ls)" using arg_cong [OF pre(1), of set] by blast
      then obtain i where "i < st" "l = ls ! i" by (auto simp: in_set_conv_nth)
      then show ?thesis using h by (metis less_irrefl order.strict_trans)
    next
      assume "l \<in> set (tl ?blk @ ?bl @ ?post)"
      moreover have "drop (Suc st) ls = tl ?blk @ ?bl @ ?post"
      proof -
        have "drop st ls = ?blk @ ?bl @ ?post"
          by (subst append_take_drop_id [of n "drop st ls", symmetric]) (simp add: add.commute)
        then have "tl (drop st ls) = tl ?blk @ ?bl @ ?post" using ne by (metis tl_append2)
        then show ?thesis by (simp add: tl_drop drop_Suc)
      qed
      ultimately have "l \<in> set (drop (Suc st) ls)" by simp
      then obtain i where "i < length ls - Suc st" "l = ls ! (Suc st + i)"
        by (auto simp: in_set_conv_nth)
      then show ?thesis using h(3) by (metis add.commute less_add_Suc1 less_diff_conv less_irrefl add_Suc_right)
    qed
  qed
  have "site_parts pre ?cs ?blk ?bl ?post"
    unfolding site_parts_def
  proof (intro conjI)
    show "list_all comment_line ?cs" by (auto simp: list_all_iff dest: set_takeWhileD)
    show "pre = [] \<or> \<not> comment_line (last pre)" by (rule pre(2))
    show "?blk \<noteq> []" by (rule ne)
    show "site_header (hd ?blk)" "CHR ''{'' \<in> set (hd ?blk)" using h(2) b by (simp_all only: hd)
    have "length ?blk = n" using n0 by simp
    then show "close_line 0 ?blk = Some (length ?blk)" using close_line_take [OF n] by simp
    show "list_all (\<lambda>l. \<not> site_header l) (pre @ ?cs @ tl ?blk @ ?bl @ ?post)"
      unfolding list_all_iff using rest by blast
    show "list_all blank_line ?bl" by (auto simp: list_all_iff dest: set_takeWhileD)
    show "?post = [] \<or> \<not> blank_line (hd ?post)" by (rule dropWhile_hd)
  qed
  moreover have "s = length pre" using s pre(3) h(1) by simp
  moreover have "e = length pre + length ?cs + length ?blk + length ?bl" using e lst n0 by simp
  ultimately show ?thesis using split by blast
qed

subsection \<open>What is cut out\<close>

definition brace_ok :: "string list \<Rightarrow> bool" where
  "brace_ok ls = (brace_diff (concat ls) = 0)"

lemma remove_site_parts:
  assumes "splitlines_keep t = pre @ cs @ blk @ bl @ post" and "site_parts pre cs blk bl post"
  shows "remove_site t =
    (if contains SITE_ADDRESS (concat (pre @ post))
     then Inl (SystemExitMsg ''site address still present after removal'')
     else if \<not> brace_ok (pre @ post)
     then Inl (SystemExitMsg ''removal would leave unbalanced braces; refusing to write'')
     else Inr (concat (pre @ post)))"
proof -
  have "drop (length pre + length cs + length blk + length bl) (pre @ cs @ blk @ bl @ post) = post" by simp
  then show ?thesis
    using site_bounds_of_parts [OF assms(2)]
    by (simp add: remove_site_def assms(1) Let_def balanced_iff brace_ok_def del: append_assoc concat_append
        count_list_append)
qed


lemma contains_concat: "l \<in> set ls \<Longrightarrow> contains p l \<Longrightarrow> contains p (concat ls)"
proof -
  assume "l \<in> set ls" "contains p l"
  then obtain xs ys a b where "ls = xs @ l # ys" "l = a @ p @ b"
    by (metis contains_iff split_list)
  then have "concat ls = (concat xs @ a) @ p @ (b @ concat ys)" by simp
  then show "contains p (concat ls)" unfolding contains_iff by blast
qed

lemma header_contains: "site_header l \<Longrightarrow> contains SITE_ADDRESS l"
proof -
  assume "site_header l"
  then obtain u where "lstrip l = SITE_ADDRESS @ u" by (auto simp: site_header_def starts_with_iff)
  moreover have "l = takeWhile is_space l @ lstrip l" by (simp add: lstrip_def)
  ultimately show "contains SITE_ADDRESS l" unfolding contains_iff by metis
qed

text \<open>C33: The removal is fail-closed: what it writes is the file without one run of lines that holds the only
  header of the site and whose block is balanced, does not mention the site any more and is balanced
  itself; and a second run refuses to write.\<close>

theorem remove_site_fail_closed:
  assumes "remove_site t = Inr out"
  shows "(\<exists>pre cs blk bl post. splitlines_keep t = pre @ cs @ blk @ bl @ post \<and> site_parts pre cs blk bl post
      \<and> brace_ok blk \<and> out = concat (pre @ post))
    \<and> \<not> contains SITE_ADDRESS out \<and> brace_diff out = 0
    \<and> (\<exists>m. remove_site out = Inl (SystemExitMsg m))"
proof -
  obtain s e where b: "find_site_bounds (splitlines_keep t) = Inr (s, e)"
    using assms by (auto simp: remove_site_def Let_def res_simps)
  from site_parts_of_bounds [OF b] obtain pre cs blk bl post
    where p: "splitlines_keep t = pre @ cs @ blk @ bl @ post" "site_parts pre cs blk bl post" by blast
  have o: "\<not> contains SITE_ADDRESS out" "brace_diff out = 0" "out = concat (pre @ post)"
    using remove_site_parts [OF p] assms by (auto simp: brace_ok_def split: if_splits)
  have "close_line 0 blk = Some (length blk)" using p(2) by (simp add: site_parts_def)
  then have "brace_ok blk" using close_line_balance [of 0 blk "length blk"] by (simp add: brace_ok_def brace_diff_concat)
  moreover have "site_starts (splitlines_keep out) = []"
  proof -
    have "\<not> site_header l" if "l \<in> set (splitlines_keep out)" for l
      using contains_concat [OF that] header_contains o(1) by (auto simp: concat_splitlines_keep)
    then show ?thesis by (auto simp: site_starts_def filter_empty_conv)
  qed
  then have "\<exists>m. remove_site out = Inl (SystemExitMsg m)" by (simp add: remove_site_def find_site_bounds_def)
  ultimately show ?thesis using p o by blast
qed

definition sample_caddy :: "string list" where
  "sample_caddy = map (\<lambda>l. l @ [NL])
     [''a.b {'', ''}'', ''# portainer'', SITE_ADDRESS @ '' {'', ''  tls {'', ''  }'', ''}'', [], ''c {'', ''}'']"

lemma sample_caddy_parts:
  "splitlines_keep (concat sample_caddy) = take 2 sample_caddy @ [sample_caddy ! 2] @ take 4 (drop 3 sample_caddy)
     @ [sample_caddy ! 7] @ drop 8 sample_caddy"
  "site_parts (take 2 sample_caddy) [sample_caddy ! 2] (take 4 (drop 3 sample_caddy)) [sample_caddy ! 7] (drop 8 sample_caddy)"
  "\<not> contains SITE_ADDRESS (concat (take 2 sample_caddy @ drop 8 sample_caddy))"
  "brace_ok (take 2 sample_caddy @ drop 8 sample_caddy)"
  by (code_simp, code_simp, code_simp, code_simp)


theorem remove_site_fail_closed_witness:
  "\<exists>m. remove_site (concat (take 2 sample_caddy @ drop 8 sample_caddy)) = Inl (SystemExitMsg m)"
proof -
  have "remove_site (concat sample_caddy) = Inr (concat (take 2 sample_caddy @ drop 8 sample_caddy))"
    using remove_site_parts [OF sample_caddy_parts(1,2)] sample_caddy_parts(3,4) by simp
  from remove_site_fail_closed [OF this] show ?thesis by blast
qed

end
