(* ===== verification/Spec2Isabelle.thy ===== *)
theory Spec2Isabelle
  imports Fleet Preflight Bootstrap RenderConfig KeySync PluginConfig QuotaFailover CaddyBlock CaddySite
begin

text \<open>
  The Python programs of a repository that deploys a Headscale tailnet, its relays and a few services
  beside it. Each is modelled whole, as functions on the values it handles, and its theorems say what
  makes it correct. Every theory opens with what it holds and what it leaves out.

  \<^bold>\<open>The programs and their theories.\<close>
  \<^item> \<open>node-dedup/dedup.py\<close>, the service on the control server. It polls Headscale, deletes offline
    duplicates of a node, gives the remaining one its name, approves routes (\<open>Nodes\<close>), pings the live
    nodes (\<open>Ping\<close>, \<open>LocalApi\<close>), keeps devices and latency samples in SQLite (\<open>Store\<close>), and serves
    reports, statistics and two pages over HTTP (\<open>Report\<close>, \<open>Stats\<close>, \<open>DerpView\<close>, \<open>Pages\<close>,
    \<open>TailnetAuth\<close>, \<open>Collector\<close>). \<open>Poll\<close> is one round of its loop as a function. \<open>Service\<close> is the process:
    the settings it reads, its start, and the thread of the loop (\<open>main_step\<close>, whose program counter is
    \<open>phase\<close>) interleaved with requests, the clock and restarts by a list of events (\<open>happen\<close>). The poll
    loop and the handler share the database: \<open>db_step\<close> of \<open>Store\<close> is the relation of their writes, and
    every event is proved to be a sequence of its steps.
  \<^item> \<open>ping-reporter/reporter.py\<close>, on the relays, finds the collector in the tailnet, pings the peers and
    posts a report to it (\<open>Reporter\<close>); \<open>Fleet\<close> lets reporters and a monitor meet the running service.
  \<^item> \<open>cliproxy/\<close>: \<open>pgstore-keys.py\<close> keeps every client key of a proxy valid (\<open>ClientKeys\<close> reads the keys,
    \<open>KeySync\<close> talks to the proxy), \<open>render-config.py\<close> renders its configuration (\<open>RenderConfig\<close>),
    \<open>plugin-config.py\<close> turns a plugin on (\<open>PluginConfig\<close>), \<open>quota-failover.py\<close> sets the order of the
    accounts (\<open>QuotaFailover\<close>).
  \<^item> \<open>scripts/verify-preflight.py\<close> decides whether the relays may verify their clients (\<open>Preflight\<close>);
    \<open>beszel/bootstrap.py\<close> creates the records of a monitoring hub (\<open>Bootstrap\<close>).
  \<^item> \<open>beszel/caddy_block.py\<close> and \<open>portainer-vpn4/remove-caddy-site.py\<close> edit a Caddyfile (\<open>CaddyBlock\<close>,
    \<open>CaddySite\<close>).

  \<^bold>\<open>What they rest on.\<close> \<open>Prelude\<close> has exceptions as values, the dictionaries and the removal of
  duplicates that the code writes out by hand; \<open>PyStr\<close>, \<open>PyFloat\<close>, \<open>PyJson\<close> and \<open>PyLoads\<close> are the parts
  of Python's library the code uses: string methods, binary64 arithmetic with its rounding and
  printing, JSON values and their conversions, \<open>json.loads\<close>. \<open>JsonText\<close> proves that \<open>json.loads\<close> reads
  what \<open>json.dumps\<close> wrote. \<open>Http\<close> has actions against a server, and \<open>Rewrite\<close> the editing of files
  line by line.

  \<^bold>\<open>Interfaces.\<close> \<open>busy_ranking\<close> (\<open>Nodes\<close>): what the planner needs of the ranking of nodes.
  \<open>keyed_table\<close> (\<open>Store\<close>): what a table with an upsert by key promises. \<open>polite_script\<close> (\<open>Http\<close>): a
  script that sends only what it may, from which follows what its log of requests can hold;
  \<open>QuotaFailover\<close>, \<open>Preflight\<close> and \<open>Bootstrap\<close> provide it. \<open>stable_rewrite\<close> (\<open>Rewrite\<close>): an edit that
  finds its own work done, from which follows that any number of runs is one run; the edits of \<open>RenderConfig\<close>,
  \<open>PluginConfig\<close>, \<open>QuotaFailover\<close> and \<open>CaddyBlock\<close> provide it.

  \<^bold>\<open>What the theorems say.\<close>
  \<^item> The plan deletes exactly the offline nodes of a group that are not its keeper, never an online one;
    deletions come before the rename of a group; carried out, the plan is finished; a failing request
    ends a round there. Route approval adds what is advertised and no more.
  \<^item> The running service, under any schedule: its database stays one that the history of writes can
    reach; a dry run sends nothing; what reporters post changes nothing that is sent; only a pause that
    cannot be slept ends it, and otherwise it begins rounds again and again (the order \<open>rounds_order\<close>
    falls with every step of the loop). Undisturbed, its round is the function of \<open>Poll\<close>.
  \<^item> Every reachable database is well formed, and writes only extend it. A POST writes once or not at
    all, and only for an allowed address; the set of these addresses is computed exactly. Accepted
    reports are well formed, refused ones are refused for the listed reasons. The health check means
    what it says; statistics count every row once and stay in their bounds under rounding; reported
    texts cannot open a tag in the cells of the pages.
  \<^item> What a reporter measures is what the collector stores, byte by byte over the wire, and a reporter
    that got through keeps the health check at 200 inside the window.
  \<^item> No command of the key script hangs; \<open>sync\<close> only adds keys, and all that are missing; success of
    \<open>check\<close> means that every key was served; keys that were rendered are read back; extraction is exact.
  \<^item> The edits of files are stable under repetition, change only what they name, and the removal of a
    site is fail-closed. The scripts that talk to an API send only the requests listed, and their
    success means that the server accepted or decided what they report.

  \<^bold>\<open>Parameters.\<close> Headscale, the proxy, PocketBase, tailscaled and the dashboard are arguments: functions
  from a request to an answer, with a world of its own where it matters. What a theorem assumes of them
  is a named predicate over their documented behaviour (\<open>proxy_api\<close>, \<open>pocketbase\<close>, \<open>admission\<close>), and its
  witness has a concrete server for which the predicate is proved. The clock is a rational number and
  \<open>sleep\<close> an argument; \<open>clock_runs\<close> says that time does not run back and that \<open>sleep\<close> sleeps. Files and
  the environment are maps.

  \<^bold>\<open>Loops.\<close> The loop of the service is a run over a list of events. The two waiting loops of \<open>KeySync\<close> are partial functions whose termination is a theorem. The
  JSON decoder carries fuel twice the length of its text, and \<open>loads_fuel\<close> shows that more changes
  nothing. All other loops recurse on the data.

  \<^bold>\<open>Bounds of the model.\<close> A \<open>char\<close> is one of the first 256 code points. Text beyond them, an answer in
  another encoding than UTF-8 and some JSON types that no peer sends are \<open>OutOfSchema\<close>, which is no
  Python exception and which no result of success contains. The em dash of the two pages is a parameter.
  Floats are the rationals they denote, without the sign of a zero. Python is 3.12 (\<open>ipaddress\<close>, \<open>sum\<close>).
  SQLite is its documented semantics with rows in the order of their rowid. Python's limits on recursion
  and on the digits of an integer are not modelled.

  \<^bold>\<open>Not modelled.\<close> What is printed, logged or written to stderr; sockets; the locks,
  whose sections are single steps; the environment and the pause of the reporter; shell scripts,
  workflows, SQL and configuration files; the programs in Go.
\<close>

end
